theory Spec2Isabelle
  imports Main "HOL-Library.AList" "HOL-Library.Char_ord" "HOL-Library.List_Lexorder"
    "HOL-Library.Multiset"
begin

section \<open>Data model of parser/parser.go\<close>

text \<open>
  Pointers to \<open>Ty\<close> values (\<open>*Ty\<close>) are addresses into an explicit store: the store is
  the list of all allocated \<open>Ty\<close> cells, an address is an index into it, and a nilable
  pointer is a \<open>ptr option\<close> (\<open>None\<close> is \<open>nil\<close>). Two references to one named type are
  the same address. Reading through \<open>nil\<close> or through an address outside the store is a
  runtime panic, which the model returns as the error value \<open>Panic\<close>.
\<close>

type_synonym ptr = nat

text \<open>\<open>TyKind\<close> and \<open>PrimitiveKind\<close> are Go string types; the code only ever stores the
  declared constants or leaves the zero value \<open>""\<close>, which is \<open>TyKindUnset\<close> here
  (\<open>PrimitiveUnknown\<close> is declared as \<open>""\<close> in the source itself).\<close>

datatype TyKind = TyKindUnset | TyKindPrimitive | TyKindObject | TyKindArray | TyKindMap

datatype PrimitiveKind =
  PrimitiveUnknown | PrimitiveInt | PrimitiveFloat | PrimitiveString | PrimitiveBool
  | PrimitiveBinary

datatype FieldRequirementChange =
  FieldRequirementNoChange | FieldRequirementRequired | FieldRequirementOptional

text \<open>Values of type \<open>interface{}\<close> decoded from the document (enum literals, extensions).
  Numbers are kept as integers: the parser stores these values and never computes with
  them.\<close>

datatype json = JNull | JBool bool | JNum int | JStr string | JArr "json list"

datatype err = Err string | Panic string

record FieldModification =
  Requirement :: FieldRequirementChange
  Default_mod :: string

record TyEnumValue =
  Name_enum :: string
  Val :: json

record TyField =
  Name_field :: string
  Description_field :: string
  Type_field :: "ptr option"
  Required :: bool
  Default_field :: string

record Ty =
  Name :: string
  Description :: string
  Kind :: TyKind
  Module :: string
  PrimitiveKind :: PrimitiveKind
  EnumValues :: "TyEnumValue list"
  Fields :: "TyField list"
  ElementType :: "ptr option"
  ValueType :: "ptr option"
  IsNamed :: bool

datatype ContentType = ContentTypeJson | ContentTypeFile

record HttpHandler =
  Name_handler :: string
  Description_handler :: string
  Path :: string
  Method :: string
  ContentType :: ContentType
  HeaderParams :: "TyField list"
  PathParams :: "TyField list"
  QueryParams :: "TyField list"
  RequestBody :: "ptr option"
  ResponseBody :: "ptr option"

record PageInfo =
  ItemType :: "ptr option"
  PageIndexName :: string
  PageSizeName :: string

record Module =
  Name_module :: string
  HttpHandlers :: "HttpHandler list"
  Types :: "ptr list"

definition nilDeref :: err where
  "nilDeref = Panic ''invalid memory address or nil pointer dereference''"

text \<open>Reading the cell behind a pointer.\<close>

definition deref :: "Ty list \<Rightarrow> ptr option \<Rightarrow> err + Ty" where
  "deref heap p =
     (case p of
        None \<Rightarrow> Inl nilDeref
      | Some a \<Rightarrow> if a < length heap then Inr (heap ! a) else Inl nilDeref)"

subsection \<open>The parsed document (the openapi3 types the parser reads)\<close>

text \<open>
  Only the fields that parser.go reads are kept. A Go map is an association list of its
  entries; the order in which a \<open>range\<close> statement visits it is chosen by the runtime and
  is modelled separately (\<open>rangeMap\<close> below). For a reference node (\<open>Ref\<close> not empty) the
  loader has set \<open>Value\<close> to the referenced schema; the converter reads only its title and
  description there.
\<close>

datatype SchemaRef = SchemaRef (Ref: string) (Value: "Schema option")
and Schema = Schema
  (Type: "string list")
  (Format: string)
  (Title: string)
  (Description_schema: string)
  (Enum: "json list")
  (Items: "SchemaRef option")
  (Properties: "(string \<times> SchemaRef) list")
  (Required_schema: "string list")
  (AdditionalProperties_Schema: "SchemaRef option")
  (Extensions: "(string \<times> json) list")

record Parameter =
  Name_param :: string
  In :: string
  Description_param :: string
  Required_param :: bool
  Schema_param :: "SchemaRef option"

record MediaType =
  Schema_media :: "SchemaRef option"

record RequestBodyRef =
  Value_requestBody :: "(string \<times> MediaType) list option"

record ResponseRef =
  Value_response :: "(string \<times> MediaType) list option"

record Operation =
  OperationID :: string
  Description_op :: string
  Tags :: "string list"
  Parameters :: "Parameter option list"
  RequestBody_op :: "RequestBodyRef option"
  Responses :: "(string \<times> ResponseRef) list"

record Components =
  Schemas :: "(string \<times> SchemaRef) list"

record Doc =
  Components :: "Components option"

subsection \<open>Configuration and parser state\<close>

record ModuleConfig =
  TypeModuleMap :: "(string \<times> string) list"
  ChangeHttpHandlerResponseType :: "(string \<times> string) list"
  RenameTypes :: "(string \<times> string) list"
  RenameHandlers :: "(string \<times> string) list"
  ChangeFields :: "(string \<times> (string \<times> FieldModification option) list) list"
  HandlerOrdering :: "(string \<times> string list) list"

text \<open>
  The parser state: the registry \<open>namedTypes\<close>, the groupings \<open>modules\<close>, the
  configuration and the document, as in the Go struct, together with the store of \<open>Ty\<close>
  cells that the struct's pointers point into, and the number of \<open>range\<close> statements over
  maps executed so far.
\<close>

record Parser =
  namedTypes :: "(string \<times> ptr) list"
  modules :: "(string \<times> Module) list"
  config :: ModuleConfig
  doc :: Doc
  store :: "Ty list"
  ranges :: nat

text \<open>
  Go leaves the iteration order of a map unspecified and randomises it. The runtime's
  choices are a parameter \<open>ord\<close>: for the \<open>n\<close>-th \<open>range\<close> statement executed, \<open>ord n keys\<close>
  is the order in which the keys are visited. Every run of the program is the model's run
  for some \<open>ord\<close> that permutes each key list (\<open>validOrder\<close>).
\<close>

type_synonym order = "nat \<Rightarrow> string list \<Rightarrow> string list"

definition validOrder :: "order \<Rightarrow> bool" where
  "validOrder ord \<longleftrightarrow> (\<forall>n ks. mset (ord n ks) = mset ks)"

definition rangeMap :: "order \<Rightarrow> nat \<Rightarrow> (string \<times> 'v) list \<Rightarrow> (string \<times> 'v) list" where
  "rangeMap ord n m =
     List.map_filter (\<lambda>k. map_option (Pair k) (map_of m k)) (ord n (map fst m))"

definition tick :: "Parser \<Rightarrow> Parser" where
  "tick p = p\<lparr>ranges := Suc (ranges p)\<rparr>"

text \<open>The order that visits every map in the order its entries are written.\<close>

definition writtenOrder :: order where
  "writtenOrder n ks = ks"

text \<open>The order that visits every map backwards.\<close>

definition reverseOrder :: order where
  "reverseOrder n ks = rev ks"

section \<open>Semantic inference: GetActualResponseBody, GetPageInfo\<close>

definition DefaultPageIndexCandidates :: "string list" where
  "DefaultPageIndexCandidates = [''page_index'', ''page_num'']"

definition DefaultPageSizeCandidates :: "string list" where
  "DefaultPageSizeCandidates = [''page_size'', ''page_num'']"

text \<open>The loop of \<open>GetActualResponseBody\<close>: the type of the first field named \<open>data\<close>,
  \<open>nil\<close> when the loop runs to its end.\<close>

fun dataFieldType :: "TyField list \<Rightarrow> ptr option" where
  "dataFieldType [] = None"
| "dataFieldType (field # rest) =
     (if Name_field field = ''data'' then Type_field field else dataFieldType rest)"

definition GetActualResponseBody :: "Ty list \<Rightarrow> HttpHandler \<Rightarrow> err + ptr option" where
  "GetActualResponseBody heap h =
     (case ResponseBody h of
        None \<Rightarrow> Inr None
      | Some r \<Rightarrow>
          (case deref heap (Some r) of
             Inl e \<Rightarrow> Inl e
           | Inr body \<Rightarrow>
               if Kind body \<noteq> TyKindObject then Inr None
               else Inr (dataFieldType (Fields body))))"

text \<open>The two candidate searches of \<open>GetPageInfo\<close>: the first candidate that is a query
  parameter name; the size search also skips the name chosen for the index. The result
  is \<open>""\<close> when no candidate matches.\<close>

fun findPageIndex :: "string list \<Rightarrow> string list \<Rightarrow> string" where
  "findPageIndex paramNames [] = []"
| "findPageIndex paramNames (candidate # rest) =
     (if candidate \<in> set paramNames then candidate else findPageIndex paramNames rest)"

fun findPageSize :: "string list \<Rightarrow> string \<Rightarrow> string list \<Rightarrow> string" where
  "findPageSize paramNames pageIndex [] = []"
| "findPageSize paramNames pageIndex (candidate # rest) =
     (if candidate \<in> set paramNames \<and> candidate \<noteq> pageIndex then candidate
      else findPageSize paramNames pageIndex rest)"

text \<open>The last loop of \<open>GetPageInfo\<close>: the first field whose type has kind array gives
  the page information; \<open>field.Type.Kind\<close> dereferences the field's type.\<close>

fun findArrayField :: "Ty list \<Rightarrow> string \<Rightarrow> string \<Rightarrow> TyField list \<Rightarrow> err + PageInfo option" where
  "findArrayField heap pageIndex pageSize [] = Inr None"
| "findArrayField heap pageIndex pageSize (field # rest) =
     (case deref heap (Type_field field) of
        Inl e \<Rightarrow> Inl e
      | Inr fieldTy \<Rightarrow>
          if Kind fieldTy = TyKindArray
          then Inr (Some \<lparr>ItemType = ElementType fieldTy, PageIndexName = pageIndex,
                           PageSizeName = pageSize\<rparr>)
          else findArrayField heap pageIndex pageSize rest)"

definition GetPageInfo ::
  "Ty list \<Rightarrow> HttpHandler \<Rightarrow> string list \<Rightarrow> string list \<Rightarrow> err + PageInfo option" where
  "GetPageInfo heap h pageIndexCandidates0 pageSizeCandidates0 =
     (let pageIndexCandidates =
            (if length pageIndexCandidates0 = 0 then DefaultPageIndexCandidates
             else pageIndexCandidates0);
          pageSizeCandidates =
            (if length pageSizeCandidates0 = 0 then DefaultPageSizeCandidates
             else pageSizeCandidates0)
      in if Method h \<noteq> ''GET'' then Inr None
         else
           let paramNames = map Name_field (QueryParams h);
               pageIndex = findPageIndex paramNames pageIndexCandidates;
               pageSize = findPageSize paramNames pageIndex pageSizeCandidates
           in if pageIndex = [] \<or> pageSize = [] then Inr None
              else
                (case GetActualResponseBody heap h of
                   Inl e \<Rightarrow> Inl e
                 | Inr None \<Rightarrow> Inr None
                 | Inr (Some a) \<Rightarrow>
                     (case deref heap (Some a) of
                        Inl e \<Rightarrow> Inl e
                      | Inr actualBody \<Rightarrow>
                          if Kind actualBody \<noteq> TyKindObject then Inr None
                          else findArrayField heap pageIndex pageSize (Fields actualBody))))"


subsection \<open>Example stores and handlers\<close>

definition primTy :: "PrimitiveKind \<Rightarrow> Ty" where
  "primTy k = \<lparr>Name = [], Description = [], Kind = TyKindPrimitive, Module = [],
     PrimitiveKind = k, EnumValues = [], Fields = [], ElementType = None, ValueType = None,
     IsNamed = False\<rparr>"

definition objectTy :: "string \<Rightarrow> bool \<Rightarrow> TyField list \<Rightarrow> Ty" where
  "objectTy n named fs = \<lparr>Name = n, Description = [], Kind = TyKindObject, Module = [],
     PrimitiveKind = PrimitiveUnknown, EnumValues = [], Fields = fs, ElementType = None,
     ValueType = None, IsNamed = named\<rparr>"

definition arrayTy :: "ptr option \<Rightarrow> Ty" where
  "arrayTy e = \<lparr>Name = [], Description = [], Kind = TyKindArray, Module = [],
     PrimitiveKind = PrimitiveUnknown, EnumValues = [], Fields = [], ElementType = e,
     ValueType = None, IsNamed = False\<rparr>"

definition mkField :: "string \<Rightarrow> ptr \<Rightarrow> TyField" where
  "mkField n a = \<lparr>Name_field = n, Description_field = [], Type_field = Some a,
     Required = False, Default_field = []\<rparr>"

definition mkHandler :: "string \<Rightarrow> string \<Rightarrow> TyField list \<Rightarrow> ptr option \<Rightarrow> ptr option \<Rightarrow> HttpHandler" where
  "mkHandler n m qs req resp = \<lparr>Name_handler = n, Description_handler = [], Path = ''/v1/x'',
     Method = m, ContentType = ContentTypeJson, HeaderParams = [], PathParams = [],
     QueryParams = qs, RequestBody = req, ResponseBody = resp\<rparr>"

text \<open>The envelope \<open>{code: int, msg: string, data: FooType}\<close> at address 0, with
  \<open>FooType\<close> at address 3.\<close>

definition envelopeHeap :: "Ty list" where
  "envelopeHeap =
     [objectTy [] False [mkField ''code'' 1, mkField ''msg'' 2, mkField ''data'' 3],
      primTy PrimitiveInt, primTy PrimitiveString,
      objectTy ''FooType'' True [mkField ''id'' 2]]"

definition envelopeHandler :: HttpHandler where
  "envelopeHandler = mkHandler ''GetFoo'' ''GET'' [] None (Some 0)"

text \<open>A status response \<open>{code: int, msg: string}\<close> at address 0: no \<open>data\<close> field.\<close>

definition statusHeap :: "Ty list" where
  "statusHeap =
     [objectTy [] False [mkField ''code'' 1, mkField ''msg'' 2],
      primTy PrimitiveInt, primTy PrimitiveString]"

definition statusHandler :: HttpHandler where
  "statusHandler = mkHandler ''DeleteFoo'' ''POST'' [] None (Some 0)"

text \<open>The listing response \<open>{data: {items: [ItemType], total: int}}\<close>: the envelope at
  address 0, the payload object at 1, the array at 2, \<open>ItemType\<close> at 3.\<close>

definition pageHeap :: "Ty list" where
  "pageHeap =
     [objectTy [] False [mkField ''data'' 1],
      objectTy [] False [mkField ''items'' 2, mkField ''total'' 4],
      arrayTy (Some 3),
      objectTy ''ItemType'' True [],
      primTy PrimitiveInt]"

definition pageHandler :: HttpHandler where
  "pageHandler =
     mkHandler ''ListItems'' ''GET'' [mkField ''page_num'' 4, mkField ''page_size'' 4] None (Some 0)"

text \<open>The same listing, whose query parameters also include \<open>page_index\<close>.\<close>

definition pageHandler3 :: HttpHandler where
  "pageHandler3 =
     mkHandler ''ListItems'' ''GET''
       [mkField ''page_index'' 4, mkField ''page_num'' 4, mkField ''page_size'' 4] None (Some 0)"

lemmas example_defs =
  primTy_def objectTy_def arrayTy_def mkField_def mkHandler_def envelopeHeap_def
  envelopeHandler_def statusHeap_def statusHandler_def pageHeap_def pageHandler_def
  pageHandler3_def

subsection \<open>Envelope unwrap\<close>

lemma dataFieldType_first:
  "\<forall>g\<in>set pre. Name_field g \<noteq> ''data'' \<Longrightarrow> Name_field f = ''data'' \<Longrightarrow>
   dataFieldType (pre @ f # post) = Type_field f"
  by (induction pre) auto

lemma dataFieldType_absent:
  "\<forall>g\<in>set fs. Name_field g \<noteq> ''data'' \<Longrightarrow> dataFieldType fs = None"
  by (induction fs) auto

text \<open>
  C2 (as the code has it). For a handler whose declared response body is an object type:
  when the body has a field named exactly \<open>data\<close>, \<open>GetActualResponseBody\<close> returns the type
  of the first such field; when the body has no \<open>data\<close> field it returns \<open>nil\<close>, not the
  declared response body.
\<close>

theorem GetActualResponseBody_unwrap:
  assumes "ResponseBody h = Some r" and "r < length heap"
    and "Kind (heap ! r) = TyKindObject"
  shows "(\<forall>pre f post.
            Fields (heap ! r) = pre @ f # post \<and> (\<forall>g\<in>set pre. Name_field g \<noteq> ''data'') \<and>
            Name_field f = ''data'' \<longrightarrow>
            GetActualResponseBody heap h = Inr (Type_field f)) \<and>
         ((\<forall>g\<in>set (Fields (heap ! r)). Name_field g \<noteq> ''data'') \<longrightarrow>
            GetActualResponseBody heap h = Inr None)"
  using assms
  by (auto simp: GetActualResponseBody_def deref_def dataFieldType_first dataFieldType_absent)

theorem GetActualResponseBody_unwrap_witness:
  "ResponseBody envelopeHandler = Some 0 \<and> 0 < length envelopeHeap \<and>
   Kind (envelopeHeap ! 0) = TyKindObject \<and>
   GetActualResponseBody envelopeHeap envelopeHandler = Inr (Some 3) \<and>
   GetActualResponseBody statusHeap statusHandler = Inr None"
proof -
  have e: "ResponseBody envelopeHandler = Some 0" "0 < length envelopeHeap"
    "Kind (envelopeHeap ! 0) = TyKindObject"
    by (simp_all add: example_defs)
  have s: "ResponseBody statusHandler = Some 0" "0 < length statusHeap"
    "Kind (statusHeap ! 0) = TyKindObject"
    by (simp_all add: example_defs)
  have "GetActualResponseBody envelopeHeap envelopeHandler = Inr (Type_field (mkField ''data'' 3))"
    using GetActualResponseBody_unwrap [OF e, THEN conjunct1, rule_format,
        of "[mkField ''code'' 1, mkField ''msg'' 2]" "mkField ''data'' 3" "[]"]
    by (simp add: example_defs)
  moreover from GetActualResponseBody_unwrap [OF s]
  have "GetActualResponseBody statusHeap statusHandler = Inr None"
    by (simp add: example_defs)
  ultimately show ?thesis using e by (simp add: mkField_def)
qed

text \<open>C2 as stated fails: the status response has no \<open>data\<close> field, and the unwrap
  returns \<open>nil\<close> where the claim expects the declared response body (address 0).\<close>

theorem GetActualResponseBody_no_data_counterexample:
  "ResponseBody statusHandler = Some 0 \<and>
   map Name_field (Fields (statusHeap ! 0)) = [''code'', ''msg''] \<and>
   GetActualResponseBody statusHeap statusHandler = Inr None \<and>
   GetActualResponseBody statusHeap statusHandler \<noteq> Inr (ResponseBody statusHandler)"
  by (simp add: GetActualResponseBody_def deref_def example_defs)

subsection \<open>Pagination detection\<close>

lemma findArrayField_first:
  "\<forall>g\<in>set pre. \<exists>b. Type_field g = Some b \<and> b < length heap \<and> Kind (heap ! b) \<noteq> TyKindArray \<Longrightarrow>
   Type_field af = Some a \<Longrightarrow> a < length heap \<Longrightarrow> Kind (heap ! a) = TyKindArray \<Longrightarrow>
   findArrayField heap i s (pre @ af # post) =
     Inr (Some \<lparr>ItemType = ElementType (heap ! a), PageIndexName = i, PageSizeName = s\<rparr>)"
  by (induction pre) (auto simp: deref_def)

lemma findArrayField_names:
  "findArrayField heap i s fs = Inr (Some info) \<Longrightarrow>
   PageIndexName info = i \<and> PageSizeName info = s"
  by (induction fs) (auto split: sum.splits if_splits)

lemma findPageSize_not_index:
  "findPageSize ns i cs \<noteq> [] \<Longrightarrow> findPageSize ns i cs \<noteq> i"
  by (induction cs) (auto split: if_splits)

text \<open>
  C9 (as the code has it). For a GET handler whose query parameters include \<open>page_num\<close>
  and \<open>page_size\<close> but not \<open>page_index\<close>, whose declared response body is an object whose
  first \<open>data\<close> field has an object type, and where the first array-typed field of that
  object (in field order) has element type \<open>item\<close>: with the default candidate lists
  \<open>GetPageInfo\<close> returns element type \<open>item\<close>, index parameter \<open>page_num\<close> and size
  parameter \<open>page_size\<close>. For any candidate lists, a returned size parameter name differs
  from the returned index parameter name.
\<close>

theorem GetPageInfo_paginated:
  "(Method h = ''GET'' \<and>
    ''page_num'' \<in> set (map Name_field (QueryParams h)) \<and>
    ''page_size'' \<in> set (map Name_field (QueryParams h)) \<and>
    ''page_index'' \<notin> set (map Name_field (QueryParams h)) \<and>
    ResponseBody h = Some r \<and> r < length heap \<and> Kind (heap ! r) = TyKindObject \<and>
    Fields (heap ! r) = pre @ df # post \<and> (\<forall>g\<in>set pre. Name_field g \<noteq> ''data'') \<and>
    Name_field df = ''data'' \<and> Type_field df = Some d \<and>
    d < length heap \<and> Kind (heap ! d) = TyKindObject \<and>
    Fields (heap ! d) = pre2 @ af # post2 \<and>
    (\<forall>g\<in>set pre2. \<exists>b. Type_field g = Some b \<and> b < length heap \<and> Kind (heap ! b) \<noteq> TyKindArray) \<and>
    Type_field af = Some a \<and> a < length heap \<and> Kind (heap ! a) = TyKindArray \<and>
    ElementType (heap ! a) = item
    \<longrightarrow> GetPageInfo heap h [] [] =
          Inr (Some \<lparr>ItemType = item, PageIndexName = ''page_num'', PageSizeName = ''page_size''\<rparr>)) \<and>
   (\<forall>ic sc info. GetPageInfo heap h ic sc = Inr (Some info) \<longrightarrow>
      PageSizeName info \<noteq> PageIndexName info)"
proof (intro conjI impI allI)
  assume a: "Method h = ''GET'' \<and>
    ''page_num'' \<in> set (map Name_field (QueryParams h)) \<and>
    ''page_size'' \<in> set (map Name_field (QueryParams h)) \<and>
    ''page_index'' \<notin> set (map Name_field (QueryParams h)) \<and>
    ResponseBody h = Some r \<and> r < length heap \<and> Kind (heap ! r) = TyKindObject \<and>
    Fields (heap ! r) = pre @ df # post \<and> (\<forall>g\<in>set pre. Name_field g \<noteq> ''data'') \<and>
    Name_field df = ''data'' \<and> Type_field df = Some d \<and>
    d < length heap \<and> Kind (heap ! d) = TyKindObject \<and>
    Fields (heap ! d) = pre2 @ af # post2 \<and>
    (\<forall>g\<in>set pre2. \<exists>b. Type_field g = Some b \<and> b < length heap \<and> Kind (heap ! b) \<noteq> TyKindArray) \<and>
    Type_field af = Some a \<and> a < length heap \<and> Kind (heap ! a) = TyKindArray \<and>
    ElementType (heap ! a) = item"
  then have body: "GetActualResponseBody heap h = Inr (Some d)"
    by (simp add: GetActualResponseBody_def deref_def dataFieldType_first)
  from a have arr: "findArrayField heap ''page_num'' ''page_size'' (Fields (heap ! d)) =
      Inr (Some \<lparr>ItemType = item, PageIndexName = ''page_num'', PageSizeName = ''page_size''\<rparr>)"
    using findArrayField_first [of pre2 heap af a "''page_num''" "''page_size''" post2] by simp
  from a have idx: "findPageIndex (map Name_field (QueryParams h)) DefaultPageIndexCandidates = ''page_num''"
    by (simp add: DefaultPageIndexCandidates_def)
  from a have sz: "findPageSize (map Name_field (QueryParams h)) ''page_num'' DefaultPageSizeCandidates = ''page_size''"
    by (simp add: DefaultPageSizeCandidates_def)
  from a body arr idx sz
  show "GetPageInfo heap h [] [] =
          Inr (Some \<lparr>ItemType = item, PageIndexName = ''page_num'', PageSizeName = ''page_size''\<rparr>)"
    by (simp add: GetPageInfo_def Let_def deref_def)
next
  fix ic sc info
  assume r: "GetPageInfo heap h ic sc = Inr (Some info)"
  define ics where "ics = (if length ic = 0 then DefaultPageIndexCandidates else ic)"
  define scs where "scs = (if length sc = 0 then DefaultPageSizeCandidates else sc)"
  define ns where "ns = map Name_field (QueryParams h)"
  define i where "i = findPageIndex ns ics"
  define s where "s = findPageSize ns i scs"
  from r have ne: "s \<noteq> []"
    by (auto simp: GetPageInfo_def Let_def ics_def scs_def ns_def i_def s_def split: if_splits)
  from r obtain fs where "findArrayField heap i s fs = Inr (Some info)"
    by (auto simp: GetPageInfo_def Let_def ics_def scs_def ns_def i_def s_def
        split: if_splits sum.splits option.splits)
  then have "PageIndexName info = i" "PageSizeName info = s"
    using findArrayField_names by blast+
  moreover from ne have "s \<noteq> i" unfolding s_def by (rule findPageSize_not_index)
  ultimately show "PageSizeName info \<noteq> PageIndexName info" by simp
qed

theorem GetPageInfo_paginated_witness:
  "GetPageInfo pageHeap pageHandler [] [] =
     Inr (Some \<lparr>ItemType = Some 3, PageIndexName = ''page_num'', PageSizeName = ''page_size''\<rparr>) \<and>
   PageSizeName \<lparr>ItemType = Some 3, PageIndexName = ''page_num'', PageSizeName = ''page_size''\<rparr>
     \<noteq> PageIndexName \<lparr>ItemType = Some 3, PageIndexName = ''page_num'', PageSizeName = ''page_size''\<rparr>"
proof -
  have r: "GetPageInfo pageHeap pageHandler [] [] =
     Inr (Some \<lparr>ItemType = Some 3, PageIndexName = ''page_num'', PageSizeName = ''page_size''\<rparr>)"
    using GetPageInfo_paginated [of pageHandler 0 pageHeap "[]" "mkField ''data'' 1" "[]" 1
        "[]" "mkField ''items'' 2" "[mkField ''total'' 4]" 2 "Some 3", THEN conjunct1]
    by (simp add: example_defs)
  from GetPageInfo_paginated [of pageHandler 0 pageHeap "[]" "mkField ''data'' 1" "[]" 1
        "[]" "mkField ''items'' 2" "[mkField ''total'' 4]" 2 "Some 3", THEN conjunct2,
        rule_format, OF r] r
  show ?thesis by simp
qed

text \<open>C9 as stated fails: with query parameters \<open>page_index\<close>, \<open>page_num\<close> and
  \<open>page_size\<close> the index parameter is \<open>page_index\<close>, the first default candidate, and not
  \<open>page_num\<close>.\<close>

theorem GetPageInfo_page_index_counterexample:
  "Method pageHandler3 = ''GET'' \<and>
   map Name_field (QueryParams pageHandler3) = [''page_index'', ''page_num'', ''page_size''] \<and>
   GetPageInfo pageHeap pageHandler3 [] [] =
     Inr (Some \<lparr>ItemType = Some 3, PageIndexName = ''page_index'', PageSizeName = ''page_size''\<rparr>)"
  by (simp add: GetPageInfo_def GetActualResponseBody_def deref_def Let_def
      DefaultPageIndexCandidates_def DefaultPageSizeCandidates_def example_defs)



section \<open>Rule engine: renameTypes, changeFieldRequirements\<close>

lemma set_map_filter_Some:
  "set (List.map_filter f xs) = {y. \<exists>x\<in>set xs. f x = Some y}"
  by (induction xs) (auto split: option.splits)

lemma set_rangeMap:
  "set (rangeMap ord n m) = {(k, v). k \<in> set (ord n (map fst m)) \<and> map_of m k = Some v}"
  by (auto simp: rangeMap_def set_map_filter_Some)

lemma validOrder_set: "validOrder ord \<Longrightarrow> set (ord n ks) = set ks"
  by (metis validOrder_def mset_eq_setD)

lemma set_rangeMap_valid:
  "validOrder ord \<Longrightarrow> set (rangeMap ord n m) = {(k, v). map_of m k = Some v}"
  by (auto simp: set_rangeMap validOrder_set dest: map_of_SomeD intro: rev_image_eqI)

text \<open>Writing through a pointer held by the registry.\<close>

definition updTy :: "Ty list \<Rightarrow> ptr \<Rightarrow> (Ty \<Rightarrow> Ty) \<Rightarrow> Ty list" where
  "updTy heap a f = (if a < length heap then heap[a := f (heap ! a)] else heap)"

subsection \<open>renameTypes\<close>

text \<open>The first loop of \<open>renameTypes\<close>: every target name is looked up in the registry.\<close>

fun checkRenameTargets :: "(string \<times> ptr) list \<Rightarrow> (string \<times> string) list \<Rightarrow> err option" where
  "checkRenameTargets registry [] = None"
| "checkRenameTargets registry ((oldName, newName) # rest) =
     (if map_of registry newName \<noteq> None
      then Some (Err (''cannot rename to '' @ newName @ '': type already exists''))
      else checkRenameTargets registry rest)"

text \<open>The second loop: the renaming itself.\<close>

fun renameLoop :: "Parser \<Rightarrow> (string \<times> string) list \<Rightarrow> Parser" where
  "renameLoop p [] = p"
| "renameLoop p ((oldName, newName) # rest) =
     (case map_of (namedTypes p) oldName of
        None \<Rightarrow> renameLoop p rest
      | Some ty \<Rightarrow>
          renameLoop
            (p\<lparr>store := updTy (store p) ty (\<lambda>t. t\<lparr>Name := newName\<rparr>),
               namedTypes := AList.update newName ty (AList.delete oldName (namedTypes p))\<rparr>)
            rest)"

definition renameTypes :: "order \<Rightarrow> Parser \<Rightarrow> err option \<times> Parser" where
  "renameTypes ord p =
     (if length (RenameTypes (config p)) = 0 then (None, p)
      else
        let targets = rangeMap ord (ranges p) (RenameTypes (config p));
            p1 = tick p
        in case checkRenameTargets (namedTypes p1) targets of
             Some e \<Rightarrow> (Some e, p1)
           | None \<Rightarrow>
               let renames = rangeMap ord (ranges p1) (RenameTypes (config p1));
                   p2 = tick p1
               in (None, renameLoop p2 renames))"

lemma checkRenameTargets_collision:
  "(oldName, newName) \<in> set targets \<Longrightarrow> map_of registry newName \<noteq> None \<Longrightarrow>
   \<exists>bad. checkRenameTargets registry targets =
            Some (Err (''cannot rename to '' @ bad @ '': type already exists'')) \<and>
         bad \<in> snd ` set targets \<and> map_of registry bad \<noteq> None"
  by (induction registry targets rule: checkRenameTargets.induct) force+

text \<open>
  C5. When a destination name of the rename batch is the name of a registered type,
  \<open>renameTypes\<close> returns the error naming a colliding destination, and no rename of the
  batch is applied: the registry, the store (so every type's name) and the groupings are
  unchanged.
\<close>

theorem renameTypes_collision:
  assumes "validOrder ord"
    and "map_of (RenameTypes (config p)) oldName = Some newName"
    and "map_of (namedTypes p) newName = Some ty"
  shows "\<exists>bad p'. renameTypes ord p =
            (Some (Err (''cannot rename to '' @ bad @ '': type already exists'')), p') \<and>
          bad \<in> ran (map_of (RenameTypes (config p))) \<and>
          bad \<in> dom (map_of (namedTypes p)) \<and>
          namedTypes p' = namedTypes p \<and> store p' = store p \<and> modules p' = modules p"
proof -
  let ?targets = "rangeMap ord (ranges p) (RenameTypes (config p))"
  from assms have "(oldName, newName) \<in> set ?targets"
    by (simp add: set_rangeMap_valid)
  moreover from assms have "map_of (namedTypes (tick p)) newName \<noteq> None"
    by (simp add: tick_def)
  ultimately obtain bad where
    c: "checkRenameTargets (namedTypes (tick p)) ?targets =
          Some (Err (''cannot rename to '' @ bad @ '': type already exists''))"
    and b: "bad \<in> snd ` set ?targets" "map_of (namedTypes (tick p)) bad \<noteq> None"
    using checkRenameTargets_collision by blast
  from assms have ne: "length (RenameTypes (config p)) \<noteq> 0" by auto
  from b assms(1) have "bad \<in> ran (map_of (RenameTypes (config p)))"
    by (auto simp: set_rangeMap_valid ran_def)
  moreover from b have "bad \<in> dom (map_of (namedTypes p))"
    by (auto simp: tick_def)
  moreover from c ne have "renameTypes ord p =
      (Some (Err (''cannot rename to '' @ bad @ '': type already exists'')), tick p)"
    by (simp add: renameTypes_def Let_def)
  ultimately show ?thesis by (simp add: tick_def)
qed


subsection \<open>changeFieldRequirements\<close>

definition applyModification :: "FieldModification \<Rightarrow> TyField \<Rightarrow> TyField" where
  "applyModification modification field =
     (let field1 =
            (case Requirement modification of
               FieldRequirementRequired \<Rightarrow> field\<lparr>Required := True\<rparr>
             | FieldRequirementOptional \<Rightarrow> field\<lparr>Required := False\<rparr>
             | FieldRequirementNoChange \<Rightarrow> field)
      in if Default_mod modification \<noteq> [] then field1\<lparr>Default_field := Default_mod modification\<rparr>
         else field1)"

text \<open>The loop over \<open>ty.Fields\<close>: the first field with the name is modified; \<open>None\<close> when
  \<open>found\<close> stays false.\<close>

fun modifyField :: "string \<Rightarrow> FieldModification \<Rightarrow> TyField list \<Rightarrow> TyField list option" where
  "modifyField fieldName modification [] = None"
| "modifyField fieldName modification (field # rest) =
     (if Name_field field = fieldName then Some (applyModification modification field # rest)
      else map_option ((#) field) (modifyField fieldName modification rest))"

text \<open>The loop over the field modifications of one type; \<open>ty\<close> is an address in the store.\<close>

fun changeFieldsOfType ::
  "string \<Rightarrow> ptr \<Rightarrow> Ty list \<Rightarrow> (string \<times> FieldModification option) list \<Rightarrow> err option \<times> Ty list" where
  "changeFieldsOfType typeName ty heap [] = (None, heap)"
| "changeFieldsOfType typeName ty heap ((fieldName, modification) # rest) =
     (case modification of
        None \<Rightarrow> changeFieldsOfType typeName ty heap rest
      | Some m \<Rightarrow>
          (case modifyField fieldName m (Fields (heap ! ty)) of
             None \<Rightarrow> (Some (Err (''field '' @ fieldName @ '' not found in type '' @ typeName)), heap)
           | Some fs \<Rightarrow>
               changeFieldsOfType typeName ty (heap[ty := (heap ! ty)\<lparr>Fields := fs\<rparr>]) rest))"

text \<open>The loop over the configured types.\<close>

fun changeFieldsLoop ::
  "order \<Rightarrow> Parser \<Rightarrow> (string \<times> (string \<times> FieldModification option) list) list \<Rightarrow>
   err option \<times> Parser" where
  "changeFieldsLoop ord p [] = (None, p)"
| "changeFieldsLoop ord p ((typeName, fieldModifications) # rest) =
     (case map_of (namedTypes p) typeName of
        None \<Rightarrow> (Some (Err (''type '' @ typeName @ '' not found'')), p)
      | Some ty \<Rightarrow>
          (case deref (store p) (Some ty) of
             Inl e \<Rightarrow> (Some e, p)
           | Inr t \<Rightarrow>
               if Kind t \<noteq> TyKindObject
               then (Some (Err (''type '' @ typeName @ '' is not an object type'')), p)
               else
                 let mods = rangeMap ord (ranges p) fieldModifications;
                     p1 = tick p
                 in case changeFieldsOfType typeName ty (store p1) mods of
                      (Some e, heap') \<Rightarrow> (Some e, p1\<lparr>store := heap'\<rparr>)
                    | (None, heap') \<Rightarrow> changeFieldsLoop ord (p1\<lparr>store := heap'\<rparr>) rest))"

definition changeFieldRequirements :: "order \<Rightarrow> Parser \<Rightarrow> err option \<times> Parser" where
  "changeFieldRequirements ord p =
     (if length (ChangeFields (config p)) = 0 then (None, p)
      else
        let entries = rangeMap ord (ranges p) (ChangeFields (config p));
            p1 = tick p
        in changeFieldsLoop ord p1 entries)"

text \<open>Two stores agree up to the requirement flags and defaults of fields.\<close>

definition eraseRequirement :: "Ty \<Rightarrow> Ty" where
  "eraseRequirement t =
     t\<lparr>Fields := map (\<lambda>f. f\<lparr>Required := False, Default_field := []\<rparr>) (Fields t)\<rparr>"

definition sameUpToRequirements :: "Ty list \<Rightarrow> Ty list \<Rightarrow> bool" where
  "sameUpToRequirements heap heap' \<longleftrightarrow> map eraseRequirement heap' = map eraseRequirement heap"

text \<open>The error values of the rule: an unregistered type name, a type that is not an
  object, a field name absent from its type; each names the offending identifier.\<close>

definition typeNotFound :: "Parser \<Rightarrow> string \<Rightarrow> bool" where
  "typeNotFound p typeName \<longleftrightarrow> map_of (namedTypes p) typeName = None"

definition notObject :: "Parser \<Rightarrow> string \<Rightarrow> bool" where
  "notObject p typeName \<longleftrightarrow>
     (\<exists>ty. map_of (namedTypes p) typeName = Some ty \<and> Kind (store p ! ty) \<noteq> TyKindObject)"

definition fieldNotFound :: "Parser \<Rightarrow> string \<Rightarrow> string \<Rightarrow> bool" where
  "fieldNotFound p typeName fieldName \<longleftrightarrow>
     (\<exists>ty. map_of (namedTypes p) typeName = Some ty \<and>
           fieldName \<notin> Name_field ` set (Fields (store p ! ty)))"

definition entryError ::
  "Parser \<Rightarrow> string \<Rightarrow> (string \<times> FieldModification option) list \<Rightarrow> err \<Rightarrow> bool" where
  "entryError p typeName mods e \<longleftrightarrow>
     typeNotFound p typeName \<and> e = Err (''type '' @ typeName @ '' not found'') \<or>
     notObject p typeName \<and> e = Err (''type '' @ typeName @ '' is not an object type'') \<or>
     (\<exists>fieldName m.
        map_of mods fieldName = Some (Some m) \<and> fieldNotFound p typeName fieldName \<and>
        e = Err (''field '' @ fieldName @ '' not found in type '' @ typeName))"

definition changeFieldsError :: "Parser \<Rightarrow> err \<Rightarrow> bool" where
  "changeFieldsError p e \<longleftrightarrow>
     (\<exists>typeName mods.
        map_of (ChangeFields (config p)) typeName = Some mods \<and> entryError p typeName mods e)"

text \<open>A configuration entry that the rule must reject.\<close>

definition entryBad ::
  "Parser \<Rightarrow> string \<Rightarrow> (string \<times> FieldModification option) list \<Rightarrow> bool" where
  "entryBad p typeName mods \<longleftrightarrow>
     typeNotFound p typeName \<or> notObject p typeName \<or>
     (\<exists>fieldName m. map_of mods fieldName = Some (Some m) \<and> fieldNotFound p typeName fieldName)"

text \<open>Every address held by the registry is in the store.\<close>

definition registryInStore :: "Parser \<Rightarrow> bool" where
  "registryInStore p \<longleftrightarrow> (\<forall>n a. map_of (namedTypes p) n = Some a \<longrightarrow> a < length (store p))"

lemma modifyField_None: "modifyField n m fs = None \<longleftrightarrow> n \<notin> Name_field ` set fs"
  by (induction fs) auto

lemma applyModification_erase:
  "applyModification m f\<lparr>Required := False, Default_field := []\<rparr> =
   f\<lparr>Required := False, Default_field := []\<rparr>"
  by (cases "Requirement m") (simp_all add: applyModification_def Let_def)

lemma modifyField_erase:
  "modifyField n m fs = Some fs' \<Longrightarrow>
   map (\<lambda>f. f\<lparr>Required := False, Default_field := []\<rparr>) fs' =
   map (\<lambda>f. f\<lparr>Required := False, Default_field := []\<rparr>) fs"
  by (induction fs arbitrary: fs') (auto simp: applyModification_erase split: if_splits)

lemma sameUpToRequirements_refl: "sameUpToRequirements h h"
  by (simp add: sameUpToRequirements_def)

lemma sameUpToRequirements_trans:
  "sameUpToRequirements h1 h2 \<Longrightarrow> sameUpToRequirements h2 h3 \<Longrightarrow> sameUpToRequirements h1 h3"
  by (simp add: sameUpToRequirements_def)

lemma sameUpToRequirements_length:
  "sameUpToRequirements h h' \<Longrightarrow> length h' = length h"
  by (metis sameUpToRequirements_def length_map)

lemma sameUpToRequirements_nth:
  assumes "sameUpToRequirements h h'" and "a < length h"
  shows "Kind (h' ! a) = Kind (h ! a) \<and>
         Name_field ` set (Fields (h' ! a)) = Name_field ` set (Fields (h ! a))"
proof -
  from assms have l: "a < length h'" by (simp add: sameUpToRequirements_length)
  from assms(1) have "map eraseRequirement h' ! a = map eraseRequirement h ! a"
    by (simp add: sameUpToRequirements_def)
  with l assms(2) have e: "eraseRequirement (h' ! a) = eraseRequirement (h ! a)" by simp
  then have "Kind (eraseRequirement (h' ! a)) = Kind (eraseRequirement (h ! a))" by simp
  then have k: "Kind (h' ! a) = Kind (h ! a)" by (simp add: eraseRequirement_def)
  from e have "map Name_field (Fields (eraseRequirement (h' ! a))) =
               map Name_field (Fields (eraseRequirement (h ! a)))" by simp
  then have "map Name_field (Fields (h' ! a)) = map Name_field (Fields (h ! a))"
    by (simp add: eraseRequirement_def comp_def)
  then have "set (map Name_field (Fields (h' ! a))) = set (map Name_field (Fields (h ! a)))"
    by simp
  with k show ?thesis by simp
qed

lemma sameUpToRequirements_update:
  assumes "ty < length h" and "modifyField n m (Fields (h ! ty)) = Some fs"
  shows "sameUpToRequirements h (h[ty := (h ! ty)\<lparr>Fields := fs\<rparr>])"
proof -
  from assms(2) have "eraseRequirement ((h ! ty)\<lparr>Fields := fs\<rparr>) = eraseRequirement (h ! ty)"
    by (simp add: eraseRequirement_def modifyField_erase)
  with assms(1) show ?thesis
    by (simp add: sameUpToRequirements_def map_update list_update_same_conv)
qed

lemma changeFieldsOfType_result:
  "ty < length heap \<Longrightarrow> changeFieldsOfType tn ty heap mods = (r, heap') \<Longrightarrow>
   sameUpToRequirements heap heap' \<and>
   (\<forall>a. a \<noteq> ty \<longrightarrow> heap' ! a = heap ! a) \<and>
   (case r of
      None \<Rightarrow> \<forall>fn m. (fn, Some m) \<in> set mods \<longrightarrow> fn \<in> Name_field ` set (Fields (heap ! ty))
    | Some e \<Rightarrow> \<exists>fn m. (fn, Some m) \<in> set mods \<and> fn \<notin> Name_field ` set (Fields (heap ! ty)) \<and>
                 e = Err (''field '' @ fn @ '' not found in type '' @ tn))"
proof (induction tn ty heap mods rule: changeFieldsOfType.induct)
  case (1 typeName ty heap)
  then show ?case by (simp add: sameUpToRequirements_refl)
next
  case (2 typeName ty heap fieldName modification rest)
  show ?case
  proof (cases modification)
    case None
    with 2 show ?thesis by (auto split: option.splits)
  next
    case (Some m)
    note Some1 = Some
    show ?thesis
    proof (cases "modifyField fieldName m (Fields (heap ! ty))")
      case None
      with Some1 2 show ?thesis
        by (auto simp: sameUpToRequirements_refl modifyField_None)
    next
      case (Some fs)
      note Some2 = Some
      let ?h = "heap[ty := (heap ! ty)\<lparr>Fields := fs\<rparr>]"
      from "2.prems" have s: "sameUpToRequirements heap ?h"
        using Some2 by (simp add: sameUpToRequirements_update)
      from "2.prems" Some1 Some2 have run: "changeFieldsOfType typeName ty ?h rest = (r, heap')"
        by simp
      from "2.prems" have l: "ty < length ?h" by simp
      from "2.IH"(2) [OF Some1 Some2 l run]
      have ih: "sameUpToRequirements ?h heap'" "\<forall>a. a \<noteq> ty \<longrightarrow> heap' ! a = ?h ! a"
        "(case r of
            None \<Rightarrow> \<forall>fn m. (fn, Some m) \<in> set rest \<longrightarrow> fn \<in> Name_field ` set (Fields (?h ! ty))
          | Some e \<Rightarrow> \<exists>fn m. (fn, Some m) \<in> set rest \<and> fn \<notin> Name_field ` set (Fields (?h ! ty)) \<and>
                 e = Err (''field '' @ fn @ '' not found in type '' @ typeName))"
        by simp_all
      from s "2.prems"(1) have names:
        "Name_field ` set (Fields (?h ! ty)) = Name_field ` set (Fields (heap ! ty))"
        using sameUpToRequirements_nth by blast
      from Some2 have here: "fieldName \<in> Name_field ` set (Fields (heap ! ty))"
        using modifyField_None [of fieldName m "Fields (heap ! ty)"] by simp
      show ?thesis
      proof (intro conjI)
        show "sameUpToRequirements heap heap'"
          using s ih(1) by (rule sameUpToRequirements_trans)
        show "\<forall>a. a \<noteq> ty \<longrightarrow> heap' ! a = heap ! a"
          using ih(2) by simp
        show "case r of
            None \<Rightarrow> \<forall>fn m. (fn, Some m) \<in> set ((fieldName, modification) # rest) \<longrightarrow>
                      fn \<in> Name_field ` set (Fields (heap ! ty))
          | Some e \<Rightarrow> \<exists>fn m. (fn, Some m) \<in> set ((fieldName, modification) # rest) \<and>
                 fn \<notin> Name_field ` set (Fields (heap ! ty)) \<and>
                 e = Err (''field '' @ fn @ '' not found in type '' @ typeName)"
          using ih(3) here unfolding names by (cases r) auto
      qed
    qed
  qed
qed


lemma tick_simps [simp]:
  "store (tick p) = store p" "namedTypes (tick p) = namedTypes p"
  "modules (tick p) = modules p" "config (tick p) = config p" "doc (tick p) = doc p"
  "ranges (tick p) = Suc (ranges p)"
  by (simp_all add: tick_def)

lemma entry_transfer:
  assumes "registryInStore p" and "namedTypes p' = namedTypes p"
    and "sameUpToRequirements (store p) (store p')"
  shows "typeNotFound p' tn = typeNotFound p tn"
    and "notObject p' tn = notObject p tn"
    and "fieldNotFound p' tn fn = fieldNotFound p tn fn"
    and "entryBad p' tn mods = entryBad p tn mods"
    and "entryError p' tn mods e = entryError p tn mods e"
    and "registryInStore p'"
proof -
  show t: "typeNotFound p' tn = typeNotFound p tn"
    using assms by (simp add: typeNotFound_def)
  have nth: "\<And>a. a < length (store p) \<Longrightarrow>
      Kind (store p' ! a) = Kind (store p ! a) \<and>
      Name_field ` set (Fields (store p' ! a)) = Name_field ` set (Fields (store p ! a))"
    using assms(3) sameUpToRequirements_nth by blast
  show n: "\<And>tn. notObject p' tn = notObject p tn"
    using assms(1,2) nth by (auto simp: notObject_def registryInStore_def)
  show f: "\<And>fn tn. fieldNotFound p' tn fn = fieldNotFound p tn fn"
    using assms(1,2) nth by (auto simp: fieldNotFound_def registryInStore_def)
  show "entryBad p' tn mods = entryBad p tn mods"
    by (simp add: entryBad_def t n f)
  show "entryError p' tn mods e = entryError p tn mods e"
    by (simp add: entryError_def t n f)
  show "registryInStore p'"
    using assms by (simp add: registryInStore_def sameUpToRequirements_length)
qed

lemma changeFieldsLoop_result:
  "validOrder ord \<Longrightarrow> registryInStore p \<Longrightarrow> changeFieldsLoop ord p entries = (r, p') \<Longrightarrow>
   namedTypes p' = namedTypes p \<and> config p' = config p \<and> modules p' = modules p \<and>
   sameUpToRequirements (store p) (store p') \<and>
   (\<forall>a. (\<forall>tn\<in>fst ` set entries. map_of (namedTypes p) tn \<noteq> Some a) \<longrightarrow>
        store p' ! a = store p ! a) \<and>
   (case r of
      None \<Rightarrow> \<forall>(tn, mods)\<in>set entries. \<not> entryBad p tn mods
    | Some e \<Rightarrow> \<exists>(tn, mods)\<in>set entries. entryError p tn mods e)"
proof (induction entries arbitrary: p)
  case Nil
  then show ?case by (simp add: sameUpToRequirements_refl)
next
  case (Cons entry rest)
  obtain tn mods where entry: "entry = (tn, mods)" by (cases entry)
  show ?case
  proof (cases "map_of (namedTypes p) tn")
    case None
    with Cons.prems entry show ?thesis
      by (auto simp: sameUpToRequirements_refl entryError_def typeNotFound_def)
  next
    case (Some ty)
    with Cons.prems have ty: "ty < length (store p)" by (simp add: registryInStore_def)
    show ?thesis
    proof (cases "Kind (store p ! ty) \<noteq> TyKindObject")
      case True
      with Cons.prems entry Some ty show ?thesis
        by (auto simp: sameUpToRequirements_refl entryError_def notObject_def deref_def)
    next
      case False
      let ?mods = "rangeMap ord (ranges p) mods"
      obtain r1 heap' where inner:
        "changeFieldsOfType tn ty (store (tick p)) ?mods = (r1, heap')"
        by (cases "changeFieldsOfType tn ty (store (tick p)) ?mods")
      let ?p2 = "(tick p)\<lparr>store := heap'\<rparr>"
      from ty have ty': "ty < length (store (tick p))" by (simp add: tick_def)
      from changeFieldsOfType_result [OF ty' inner, unfolded tick_simps]
      have same: "sameUpToRequirements (store p) heap'"
        and other: "\<forall>a. a \<noteq> ty \<longrightarrow> heap' ! a = store p ! a"
        and res: "case r1 of
            None \<Rightarrow> \<forall>fn m. (fn, Some m) \<in> set ?mods \<longrightarrow>
                      fn \<in> Name_field ` set (Fields (store p ! ty))
          | Some e \<Rightarrow> \<exists>fn m. (fn, Some m) \<in> set ?mods \<and>
                 fn \<notin> Name_field ` set (Fields (store p ! ty)) \<and>
                 e = Err (''field '' @ fn @ '' not found in type '' @ tn)"
        by (simp_all add: tick_def)
      have nt2: "namedTypes ?p2 = namedTypes p" by (simp add: tick_def)
      have st2: "sameUpToRequirements (store p) (store ?p2)" using same by simp
      note tr = entry_transfer [OF Cons.prems(2) nt2 st2]
      show ?thesis
      proof (cases r1)
        case (Some e)
        with res obtain fn m where f: "(fn, Some m) \<in> set ?mods"
          "fn \<notin> Name_field ` set (Fields (store p ! ty))"
          "e = Err (''field '' @ fn @ '' not found in type '' @ tn)" by auto
        from f(1) have "map_of mods fn = Some (Some m)" by (simp add: set_rangeMap)
        with f \<open>map_of (namedTypes p) tn = Some ty\<close> have "entryError p tn mods e"
          by (auto simp: entryError_def fieldNotFound_def)
        moreover from Cons.prems(3) entry \<open>map_of (namedTypes p) tn = Some ty\<close> ty False inner Some
        have "r = Some e" "p' = ?p2"
          by (simp_all add: deref_def Let_def)
        ultimately show ?thesis using same other entry \<open>map_of (namedTypes p) tn = Some ty\<close>
          by (auto simp: tick_def)
      next
        case None
        with res have ok: "\<forall>fn m. map_of mods fn = Some (Some m) \<longrightarrow>
            fn \<in> Name_field ` set (Fields (store p ! ty))"
          using Cons.prems(1) by (simp add: set_rangeMap_valid)
        have good: "\<not> entryBad p tn mods"
          using ok False \<open>map_of (namedTypes p) tn = Some ty\<close>
          by (auto simp: entryBad_def typeNotFound_def notObject_def fieldNotFound_def)
        from Cons.prems(3) entry \<open>map_of (namedTypes p) tn = Some ty\<close> ty False inner None
        have run: "changeFieldsLoop ord ?p2 rest = (r, p')"
          by (simp add: deref_def Let_def)
        from Cons.IH [OF Cons.prems(1) tr(6) run]
        have ih: "namedTypes p' = namedTypes ?p2" "config p' = config ?p2"
          "modules p' = modules ?p2" "sameUpToRequirements (store ?p2) (store p')"
          "\<forall>a. (\<forall>tn\<in>fst ` set rest. map_of (namedTypes ?p2) tn \<noteq> Some a) \<longrightarrow>
                store p' ! a = store ?p2 ! a"
          "case r of
             None \<Rightarrow> \<forall>(tn, mods)\<in>set rest. \<not> entryBad ?p2 tn mods
           | Some e \<Rightarrow> \<exists>(tn, mods)\<in>set rest. entryError ?p2 tn mods e"
          by simp_all
        show ?thesis
        proof (intro conjI)
          show "namedTypes p' = namedTypes p" using ih(1) by (simp add: tick_def)
          show "config p' = config p" using ih(2) by (simp add: tick_def)
          show "modules p' = modules p" using ih(3) by (simp add: tick_def)
          show "sameUpToRequirements (store p) (store p')"
            using st2 ih(4) by (rule sameUpToRequirements_trans)
          show "\<forall>a. (\<forall>tn\<in>fst ` set (entry # rest). map_of (namedTypes p) tn \<noteq> Some a) \<longrightarrow>
                store p' ! a = store p ! a"
            using ih(5) other entry \<open>map_of (namedTypes p) tn = Some ty\<close>
            by (auto simp: tick_def)
          show "case r of
             None \<Rightarrow> \<forall>(tn, mods)\<in>set (entry # rest). \<not> entryBad p tn mods
           | Some e \<Rightarrow> \<exists>(tn, mods)\<in>set (entry # rest). entryError p tn mods e"
            using ih(6) good entry unfolding tr(4) tr(5) by (cases r) auto
        qed
      qed
    qed
  qed
qed


lemma validOrder_writtenOrder: "validOrder writtenOrder"
  by (simp add: validOrder_def writtenOrder_def)

lemma validOrder_reverseOrder: "validOrder reverseOrder"
  by (simp add: validOrder_def reverseOrder_def)

definition emptyConfig :: ModuleConfig where
  "emptyConfig = \<lparr>TypeModuleMap = [], ChangeHttpHandlerResponseType = [], RenameTypes = [],
     RenameHandlers = [], ChangeFields = [], HandlerOrdering = []\<rparr>"

definition mkParser ::
  "(string \<times> ptr) list \<Rightarrow> (string \<times> Module) list \<Rightarrow> ModuleConfig \<Rightarrow> Ty list \<Rightarrow> Parser" where
  "mkParser registry ms cfg heap = \<lparr>namedTypes = registry, modules = ms, config = cfg,
     doc = \<lparr>Components = None\<rparr>, store = heap, ranges = 0\<rparr>"

text \<open>A registry with the types \<open>Foo\<close> and \<open>Bar\<close>, and a batch that renames \<open>Foo\<close> to
  \<open>Bar\<close>.\<close>

definition renameParser :: Parser where
  "renameParser =
     mkParser [(''Foo'', 0), (''Bar'', 1)] []
       (emptyConfig\<lparr>RenameTypes := [(''Baz'', ''Qux''), (''Foo'', ''Bar'')]\<rparr>)
       [objectTy ''Foo'' True [], objectTy ''Bar'' True []]"

text \<open>The type \<open>User {name: string, age: int}\<close>, and overrides that make \<open>name\<close> required
  and name a field \<open>nickname\<close> that \<open>User\<close> does not have.\<close>

definition makeRequired :: "FieldModification option" where
  "makeRequired = Some \<lparr>Requirement = FieldRequirementRequired, Default_mod = []\<rparr>"

definition userParser :: Parser where
  "userParser =
     mkParser [(''User'', 0)] []
       (emptyConfig\<lparr>ChangeFields := [(''User'', [(''name'', makeRequired), (''nickname'', makeRequired)])]\<rparr>)
       [objectTy ''User'' True [mkField ''name'' 1, mkField ''age'' 2],
        primTy PrimitiveString, primTy PrimitiveInt]"

lemmas parser_defs = emptyConfig_def mkParser_def renameParser_def makeRequired_def userParser_def

theorem renameTypes_collision_witness:
  "validOrder writtenOrder \<and>
   map_of (RenameTypes (config renameParser)) ''Foo'' = Some ''Bar'' \<and>
   map_of (namedTypes renameParser) ''Bar'' = Some 1 \<and>
   renameTypes writtenOrder renameParser =
     (Some (Err ''cannot rename to Bar: type already exists''), tick renameParser)"
proof -
  have h: "map_of (RenameTypes (config renameParser)) ''Foo'' = Some ''Bar''"
    "map_of (namedTypes renameParser) ''Bar'' = Some 1"
    by (simp_all add: parser_defs)
  from renameTypes_collision [OF validOrder_writtenOrder h]
  obtain bad p' where
    "renameTypes writtenOrder renameParser =
       (Some (Err (''cannot rename to '' @ bad @ '': type already exists'')), p')"
    by blast
  moreover have "renameTypes writtenOrder renameParser =
     (Some (Err ''cannot rename to Bar: type already exists''), tick renameParser)"
    by (simp add: renameTypes_def rangeMap_def writtenOrder_def Let_def parser_defs tick_def)
  ultimately show ?thesis using h validOrder_writtenOrder by simp
qed

lemma entryBad_tick: "entryBad (tick p) tn mods = entryBad p tn mods"
  by (simp add: entryBad_def typeNotFound_def notObject_def fieldNotFound_def)

lemma entryError_tick: "entryError (tick p) tn mods e = entryError p tn mods e"
  by (simp add: entryError_def typeNotFound_def notObject_def fieldNotFound_def)

text \<open>
  C6 (as the code has it). When the override configuration names an unregistered type, a
  type that is not an object, or (with a modification that is not \<open>nil\<close>) a field absent
  from its type, \<open>changeFieldRequirements\<close> returns an error that names such an offending
  identifier. On that error the registry is unchanged, no type changes except in the
  requirement flags and defaults of its fields, and types that the configuration does not
  name are unchanged; overrides visited before the offending entry stay applied.
\<close>

theorem changeFieldRequirements_error:
  assumes "validOrder ord" and "registryInStore p"
    and "map_of (ChangeFields (config p)) typeName = Some mods"
    and "entryBad p typeName mods"
  shows "\<exists>e p'. changeFieldRequirements ord p = (Some e, p') \<and> changeFieldsError p e \<and>
           namedTypes p' = namedTypes p \<and> sameUpToRequirements (store p) (store p') \<and>
           (\<forall>a. (\<forall>tn\<in>dom (map_of (ChangeFields (config p))). map_of (namedTypes p) tn \<noteq> Some a) \<longrightarrow>
                store p' ! a = store p ! a)"
proof -
  let ?entries = "rangeMap ord (ranges p) (ChangeFields (config p))"
  obtain r p' where run: "changeFieldsLoop ord (tick p) ?entries = (r, p')"
    by (cases "changeFieldsLoop ord (tick p) ?entries")
  from assms(2) have reg: "registryInStore (tick p)" by (simp add: registryInStore_def)
  from changeFieldsLoop_result [OF assms(1) reg run]
  have res: "namedTypes p' = namedTypes p" "sameUpToRequirements (store p) (store p')"
    "\<forall>a. (\<forall>tn\<in>fst ` set ?entries. map_of (namedTypes p) tn \<noteq> Some a) \<longrightarrow>
        store p' ! a = store p ! a"
    "case r of
      None \<Rightarrow> \<forall>(tn, mods)\<in>set ?entries. \<not> entryBad p tn mods
    | Some e \<Rightarrow> \<exists>(tn, mods)\<in>set ?entries. entryError p tn mods e"
    unfolding tick_simps entryBad_tick entryError_tick by simp_all
  from assms(1,3) have mem: "(typeName, mods) \<in> set ?entries"
    by (simp add: set_rangeMap_valid)
  with res(4) assms(4) obtain e where e: "r = Some e" by (cases r) auto
  with res(4) obtain tn ms where "(tn, ms) \<in> set ?entries" "entryError p tn ms e" by auto
  then have err: "changeFieldsError p e"
    by (auto simp: changeFieldsError_def set_rangeMap)
  have keys: "fst ` set ?entries \<subseteq> dom (map_of (ChangeFields (config p)))"
    by (auto simp: set_rangeMap)
  from assms(3) have "length (ChangeFields (config p)) \<noteq> 0" by auto
  with run e have "changeFieldRequirements ord p = (Some e, p')"
    by (simp add: changeFieldRequirements_def Let_def)
  with err res(1,2) res(3) keys show ?thesis by (auto simp: subset_iff)
qed

theorem changeFieldRequirements_error_witness:
  "validOrder writtenOrder \<and> registryInStore userParser \<and>
   map_of (ChangeFields (config userParser)) ''User'' =
     Some [(''name'', makeRequired), (''nickname'', makeRequired)] \<and>
   entryBad userParser ''User'' [(''name'', makeRequired), (''nickname'', makeRequired)] \<and>
   fst (changeFieldRequirements writtenOrder userParser) =
     Some (Err ''field nickname not found in type User'')"
proof -
  have h: "registryInStore userParser"
    "map_of (ChangeFields (config userParser)) ''User'' =
       Some [(''name'', makeRequired), (''nickname'', makeRequired)]"
    "entryBad userParser ''User'' [(''name'', makeRequired), (''nickname'', makeRequired)]"
    by (simp_all add: registryInStore_def entryBad_def fieldNotFound_def parser_defs
        example_defs)
  from changeFieldRequirements_error [OF validOrder_writtenOrder h]
  obtain e where "fst (changeFieldRequirements writtenOrder userParser) = Some e"
    by auto
  moreover have "fst (changeFieldRequirements writtenOrder userParser) =
     Some (Err ''field nickname not found in type User'')"
    by (simp add: changeFieldRequirements_def rangeMap_def writtenOrder_def Let_def
        parser_defs tick_def deref_def example_defs applyModification_def)
  ultimately show ?thesis using h validOrder_writtenOrder by simp
qed

text \<open>C6 as stated fails: the override of \<open>name\<close> is applied before the missing field
  \<open>nickname\<close> is reached, and stays applied when the rule returns its error.\<close>

theorem changeFieldRequirements_partial_counterexample:
  "fst (changeFieldRequirements writtenOrder userParser) =
     Some (Err ''field nickname not found in type User'') \<and>
   map Required (Fields (store userParser ! 0)) = [False, False] \<and>
   map Required (Fields (store (snd (changeFieldRequirements writtenOrder userParser)) ! 0)) =
     [True, False]"
  by (simp add: changeFieldRequirements_def rangeMap_def writtenOrder_def Let_def
      parser_defs tick_def deref_def example_defs applyModification_def)




section \<open>Type graph builder: convertSchema, convertField\<close>

text \<open>\<open>strings.Split(ref, "/")\<close>, and \<open>getRefName\<close>, its last part.\<close>

fun splitSlash :: "string \<Rightarrow> string \<Rightarrow> string list" where
  "splitSlash acc [] = [rev acc]"
| "splitSlash acc (c # cs) =
     (if c = CHR ''/'' then rev acc # splitSlash [] cs else splitSlash (c # acc) cs)"

definition getRefName :: "string \<Rightarrow> string" where
  "getRefName ref = last (splitSlash [] ref)"

definition convertPrimitiveType :: "string list \<Rightarrow> string \<Rightarrow> PrimitiveKind" where
  "convertPrimitiveType typ format =
     (if length typ = 0 then PrimitiveUnknown
      else if hd typ = ''integer'' then PrimitiveInt
      else if hd typ = ''number'' then PrimitiveFloat
      else if hd typ = ''string'' then
        (if format = ''binary'' then PrimitiveBinary else PrimitiveString)
      else if hd typ = ''boolean'' then PrimitiveBool
      else PrimitiveUnknown)"

text \<open>\<open>util.Choose\<close>.\<close>

definition Choose :: "bool \<Rightarrow> 'a \<Rightarrow> 'a \<Rightarrow> 'a" where
  "Choose cond a b = (if cond then a else b)"

text \<open>\<open>fmt.Errorf("...: %w", err)\<close> puts a prefix before the message of a returned
  error; a panic is not a returned error and passes unchanged.\<close>

fun wrapErr :: "string \<Rightarrow> err \<Rightarrow> err" where
  "wrapErr prefix (Err msg) = Err (prefix @ msg)"
| "wrapErr prefix (Panic msg) = Panic msg"

definition conversionPanic :: err where
  "conversionPanic = Panic ''interface conversion: interface {} is not the asserted type''"

text \<open>The loop that zips the enum display names into the enum values;
  \<open>enumNames[i].(string)\<close> panics on a name that is not a string.\<close>

fun zipEnumNames :: "TyEnumValue list \<Rightarrow> json list \<Rightarrow> err + TyEnumValue list" where
  "zipEnumNames (v # vs) (JStr n # ns) =
     (case zipEnumNames vs ns of Inl e \<Rightarrow> Inl e | Inr vs' \<Rightarrow> Inr (v\<lparr>Name_enum := n\<rparr> # vs'))"
| "zipEnumNames (v # vs) (other # ns) = Inl conversionPanic"
| "zipEnumNames vs ns = Inr vs"

text \<open>The enum part of the primitive branch of \<open>convertSchema\<close>.\<close>

definition enumValuesOf :: "Schema \<Rightarrow> err + TyEnumValue list" where
  "enumValuesOf sv =
     (let values = map (\<lambda>val. \<lparr>Name_enum = [], Val = val\<rparr>) (Enum sv)
      in if Enum sv = [] then Inr []
         else
           (case map_of (Extensions sv) ''x-coze-enum-names'' of
              Some (JArr enumNames) \<Rightarrow>
                if length enumNames = length (Enum sv) then zipEnumNames values enumNames
                else Inr values
            | _ \<Rightarrow> Inr values))"

definition newTy :: "string \<Rightarrow> bool \<Rightarrow> string \<Rightarrow> Ty" where
  "newTy name isNamed description =
     \<lparr>Name = name, Description = description, Kind = TyKindUnset, Module = [],
      PrimitiveKind = PrimitiveUnknown, EnumValues = [], Fields = [], ElementType = None,
      ValueType = None, IsNamed = isNamed\<rparr>"

text \<open>Writing through the pointer \<open>ty\<close> held by \<open>convertSchema\<close>.\<close>

definition setTy :: "Parser \<Rightarrow> ptr \<Rightarrow> (Ty \<Rightarrow> Ty) \<Rightarrow> Parser" where
  "setTy p ty f = p\<lparr>store := updTy (store p) ty f\<rparr>"

text \<open>The end of \<open>convertSchema\<close>: a named type is stored in the registry, an unnamed one
  loses its description.\<close>

definition registerTy :: "Parser \<Rightarrow> ptr \<Rightarrow> string \<Rightarrow> bool \<Rightarrow> Parser" where
  "registerTy p ty name isNamed =
     (if isNamed then p\<lparr>namedTypes := AList.update name ty (namedTypes p)\<rparr>
      else setTy p ty (\<lambda>t. t\<lparr>Description := []\<rparr>))"

text \<open>
  \<open>convertSchema\<close> and \<open>convertField\<close> call each other without bound on a document whose
  schemas refer to themselves, so the model carries fuel: each call of \<open>convertSchema\<close>
  uses one unit, and \<open>None\<close> means that the fuel ran out before the call returned. A
  result \<open>Some (r, p')\<close> is the returned value or error \<open>r\<close> and the parser state \<open>p'\<close>.
  In the definitions below \<open>self\<close> stands for the recursive call of \<open>convertSchema\<close>, with
  one unit of fuel less.
\<close>

type_synonym 'a result = "((err + 'a) \<times> Parser) option"

type_synonym converter = "Parser \<Rightarrow> SchemaRef option \<Rightarrow> string \<Rightarrow> bool \<Rightarrow> ptr result"

definition convertField ::
  "converter \<Rightarrow> Parser \<Rightarrow> string \<Rightarrow> SchemaRef \<Rightarrow> string list \<Rightarrow> TyField result" where
  "convertField self p name schema required =
     (case self p (Some schema) [] False of
        None \<Rightarrow> None
      | Some (Inl e, p1) \<Rightarrow> Some (Inl e, p1)
      | Some (Inr fieldType, p1) \<Rightarrow>
          (case Value schema of
             None \<Rightarrow> Some (Inl nilDeref, p1)
           | Some sv \<Rightarrow>
               Some (Inr \<lparr>Name_field = name,
                          Description_field =
                            Choose (Title sv \<noteq> []) (Title sv) (Description_schema sv),
                          Type_field = Some fieldType,
                          Required = (name \<in> set required),
                          Default_field = []\<rparr>, p1)))"

text \<open>The body of both property loops: convert one property and append the field to
  \<open>ty.Fields\<close>.\<close>

definition convertProperty ::
  "converter \<Rightarrow> Parser \<Rightarrow> ptr \<Rightarrow> Schema \<Rightarrow> string \<Rightarrow> SchemaRef \<Rightarrow> (err option \<times> Parser) option" where
  "convertProperty self p ty sv propName prop =
     (case convertField self p propName prop (Required_schema sv) of
        None \<Rightarrow> None
      | Some (Inl e, p1) \<Rightarrow>
          Some (Some (wrapErr (''failed to convert field '' @ propName @ '': '') e), p1)
      | Some (Inr field, p1) \<Rightarrow>
          Some (None, setTy p1 ty (\<lambda>t. t\<lparr>Fields := Fields t @ [field]\<rparr>)))"

text \<open>The loop over \<open>x-coze-order\<close>: \<open>pname.(string)\<close> panics on a name that is not a
  string, and a name without a property is skipped.\<close>

fun convertOrdered ::
  "converter \<Rightarrow> Parser \<Rightarrow> ptr \<Rightarrow> Schema \<Rightarrow> json list \<Rightarrow> (err option \<times> Parser) option" where
  "convertOrdered self p ty sv [] = Some (None, p)"
| "convertOrdered self p ty sv (JStr propName # rest) =
     (case map_of (Properties sv) propName of
        None \<Rightarrow> convertOrdered self p ty sv rest
      | Some prop \<Rightarrow>
          (case convertProperty self p ty sv propName prop of
             Some (None, p1) \<Rightarrow> convertOrdered self p1 ty sv rest
           | stop \<Rightarrow> stop))"
| "convertOrdered self p ty sv (other # rest) = Some (Some conversionPanic, p)"

text \<open>The loop over the property map, in the order the runtime visits it.\<close>

fun convertUnordered ::
  "converter \<Rightarrow> Parser \<Rightarrow> ptr \<Rightarrow> Schema \<Rightarrow> (string \<times> SchemaRef) list \<Rightarrow>
   (err option \<times> Parser) option" where
  "convertUnordered self p ty sv [] = Some (None, p)"
| "convertUnordered self p ty sv ((propName, prop) # rest) =
     (case convertProperty self p ty sv propName prop of
        Some (None, p1) \<Rightarrow> convertUnordered self p1 ty sv rest
      | stop \<Rightarrow> stop)"

text \<open>The object branch: the declared order when \<open>x-coze-order\<close> is present and not
  \<open>nil\<close> (\<open>order.([]interface{})\<close> panics on a value that is not a list), the map order
  otherwise.\<close>

definition convertObject ::
  "order \<Rightarrow> converter \<Rightarrow> Parser \<Rightarrow> ptr \<Rightarrow> Schema \<Rightarrow> (err option \<times> Parser) option" where
  "convertObject ord self p ty sv =
     (let unordered = convertUnordered self (tick p) ty sv (rangeMap ord (ranges p) (Properties sv))
      in case map_of (Extensions sv) ''x-coze-order'' of
           None \<Rightarrow> unordered
         | Some JNull \<Rightarrow> unordered
         | Some (JArr pnames) \<Rightarrow> convertOrdered self p ty sv pnames
         | Some other \<Rightarrow> Some (Some conversionPanic, p))"

text \<open>The part of \<open>convertSchema\<close> after the allocation of \<open>ty\<close>.\<close>

definition convertNew ::
  "order \<Rightarrow> converter \<Rightarrow> Parser \<Rightarrow> ptr \<Rightarrow> Schema \<Rightarrow> string \<Rightarrow> bool \<Rightarrow> ptr result" where
  "convertNew ord self p1 ty sv name isNamed =
     (case AdditionalProperties_Schema sv of
        Some valueSchema \<Rightarrow>
          (case self (setTy p1 ty (\<lambda>t. t\<lparr>Kind := TyKindMap\<rparr>)) (Some valueSchema) [] False of
             None \<Rightarrow> None
           | Some (Inl e, p2) \<Rightarrow> Some (Inl (wrapErr ''failed to convert map value type: '' e), p2)
           | Some (Inr valueType, p2) \<Rightarrow>
               Some (Inr ty, setTy p2 ty (\<lambda>t. t\<lparr>ValueType := Some valueType\<rparr>)))
      | None \<Rightarrow>
          if Type sv = [] then Some (Inr ty, registerTy p1 ty name isNamed)
          else if hd (Type sv) = ''array'' then
            (case Items sv of
               None \<Rightarrow>
                 Some (Inr ty, registerTy (setTy p1 ty (\<lambda>t. t\<lparr>Kind := TyKindArray\<rparr>)) ty name isNamed)
             | Some items \<Rightarrow>
                 (case self (setTy p1 ty (\<lambda>t. t\<lparr>Kind := TyKindArray\<rparr>)) (Some items) [] False of
                    None \<Rightarrow> None
                  | Some (Inl e, p2) \<Rightarrow>
                      Some (Inl (wrapErr ''failed to convert array element type: '' e), p2)
                  | Some (Inr elementType, p2) \<Rightarrow>
                      Some (Inr ty,
                        registerTy (setTy p2 ty (\<lambda>t. t\<lparr>ElementType := Some elementType\<rparr>))
                          ty name isNamed)))
          else if hd (Type sv) = ''object'' then
            (case convertObject ord self (setTy p1 ty (\<lambda>t. t\<lparr>Kind := TyKindObject\<rparr>)) ty sv of
               None \<Rightarrow> None
             | Some (Some e, p2) \<Rightarrow> Some (Inl e, p2)
             | Some (None, p2) \<Rightarrow> Some (Inr ty, registerTy p2 ty name isNamed))
          else
            (case enumValuesOf sv of
               Inl e \<Rightarrow>
                 Some (Inl e,
                   setTy p1 ty (\<lambda>t. t\<lparr>Kind := TyKindPrimitive,
                     PrimitiveKind := convertPrimitiveType (Type sv) (Format sv)\<rparr>))
             | Inr values \<Rightarrow>
                 Some (Inr ty,
                   registerTy
                     (setTy p1 ty (\<lambda>t. t\<lparr>Kind := TyKindPrimitive,
                        PrimitiveKind := convertPrimitiveType (Type sv) (Format sv),
                        EnumValues := values\<rparr>))
                     ty name isNamed)))"

text \<open>The body of \<open>convertSchema\<close>.\<close>

definition convertSchemaBody :: "order \<Rightarrow> converter \<Rightarrow> converter" where
  "convertSchemaBody ord self p schema name isNamed =
     (case schema of
        None \<Rightarrow> Some (Inl (Err ''nil schema. s=null''), p)
      | Some sr \<Rightarrow>
          (case Value sr of
             None \<Rightarrow> Some (Inl (Err ''nil schema value. v=null''), p)
           | Some sv \<Rightarrow>
               if Ref sr \<noteq> [] then
                 (case map_of (namedTypes p) (getRefName (Ref sr)) of
                    Some existing \<Rightarrow> Some (Inr existing, p)
                  | None \<Rightarrow>
                      (case Components (doc p) of
                         None \<Rightarrow> Some (Inl nilDeref, p)
                       | Some components \<Rightarrow>
                           self p (map_of (Schemas components) (getRefName (Ref sr)))
                             (getRefName (Ref sr)) True))
               else
                 convertNew ord self
                   (p\<lparr>store := store p @
                        [newTy name isNamed
                           (Choose (Title sv \<noteq> []) (Title sv) (Description_schema sv))]\<rparr>)
                   (length (store p)) sv name isNamed))"

fun convertSchema :: "order \<Rightarrow> nat \<Rightarrow> converter" where
  "convertSchema ord 0 = (\<lambda>p schema name isNamed. None)"
| "convertSchema ord (Suc n) = convertSchemaBody ord (convertSchema ord n)"


subsection \<open>A schema that refers to itself\<close>

text \<open>The document
  \<^verbatim>\<open>components: {schemas: {Node: {type: object, properties: {next: {$ref: '#/components/schemas/Node'}}}}}\<close>.
  The loader resolves the reference to the schema \<open>Node\<close> itself; the converter reads only
  the title and the description of a resolved reference, which are empty here.\<close>

definition mkSchema :: "string list \<Rightarrow> (string \<times> SchemaRef) list \<Rightarrow> SchemaRef" where
  "mkSchema typ props = SchemaRef [] (Some (Schema typ [] [] [] [] None props [] None []))"

definition mkRef :: "string \<Rightarrow> SchemaRef" where
  "mkRef r = SchemaRef r (Some (Schema [''object''] [] [] [] [] None [] [] None []))"

definition nodeRef :: SchemaRef where
  "nodeRef = mkRef ''#/components/schemas/Node''"

definition nodeSchema :: SchemaRef where
  "nodeSchema = mkSchema [''object''] [(''next'', nodeRef)]"

definition nodeDoc :: Doc where
  "nodeDoc = \<lparr>Components = Some \<lparr>Schemas = [(''Node'', nodeSchema)]\<rparr>\<rparr>"

definition nodeParser :: Parser where
  "nodeParser = (mkParser [] [] emptyConfig [])\<lparr>doc := nodeDoc\<rparr>"

lemma getRefName_Node: "getRefName ''#/components/schemas/Node'' = ''Node''"
  by (simp add: getRefName_def)

lemma validOrder_single: "validOrder ord \<Longrightarrow> ord n [k] = [k]"
  by (metis validOrder_def mset_single_iff mset.simps(1) mset_zero_iff add_mset_eq_single
      mset.simps(2) neq_Nil_conv)

lemma setTy_simps [simp]:
  "namedTypes (setTy p ty f) = namedTypes p" "doc (setTy p ty f) = doc p"
  "modules (setTy p ty f) = modules p" "config (setTy p ty f) = config p"
  "ranges (setTy p ty f) = ranges p"
  by (simp_all add: setTy_def)

lemma convertSchema_Node_diverges:
  assumes "validOrder ord"
  shows "\<forall>p. map_of (namedTypes p) ''Node'' = None \<and> doc p = nodeDoc \<longrightarrow>
           convertSchema ord fuel p (Some nodeSchema) ''Node'' True = None \<and>
           convertSchema ord fuel p (Some nodeRef) [] False = None"
proof (induction fuel)
  case 0
  show ?case by simp
next
  case (Suc n)
  show ?case
  proof (intro allI impI)
    fix p :: Parser
    assume h: "map_of (namedTypes p) ''Node'' = None \<and> doc p = nodeDoc"
    have rng: "\<And>k. rangeMap ord k [(''next'', nodeRef)] = [(''next'', nodeRef)]"
      using validOrder_single [OF assms] by (simp add: rangeMap_def)
    have a: "convertSchema ord (Suc n) p (Some nodeSchema) ''Node'' True = None"
      using h Suc
      by (simp add: convertSchemaBody_def nodeSchema_def mkSchema_def convertNew_def
          convertObject_def rng convertProperty_def convertField_def Let_def)
    have b: "convertSchema ord (Suc n) p (Some nodeRef) [] False = None"
      using h Suc
      by (simp add: convertSchemaBody_def nodeRef_def mkRef_def getRefName_Node nodeDoc_def)
    from a b
    show "convertSchema ord (Suc n) p (Some nodeSchema) ''Node'' True = None \<and>
          convertSchema ord (Suc n) p (Some nodeRef) [] False = None" by simp
  qed
qed


text \<open>
  C4 (the code fails here). For the named schema \<open>Node\<close>, whose property \<open>next\<close> refers to
  \<open>Node\<close> itself, the call \<open>convertSchema(schema, "Node", true)\<close> that \<open>processNamedTypes\<close>
  makes does not return, whatever the fuel: the type is stored in the registry only after
  its fields are converted, so the registry lookup at the reference finds nothing and
  converts \<open>Node\<close> again.
\<close>

theorem convertSchema_self_reference_diverges:
  "validOrder ord \<Longrightarrow> convertSchema ord fuel nodeParser (Some nodeSchema) ''Node'' True = None"
  using convertSchema_Node_diverges [of ord fuel]
  by (simp add: nodeParser_def mkParser_def)

theorem convertSchema_self_reference_diverges_witness:
  "validOrder writtenOrder \<and>
   convertSchema writtenOrder 10 nodeParser (Some nodeSchema) ''Node'' True = None"
  using convertSchema_self_reference_diverges [OF validOrder_writtenOrder, of 10]
    validOrder_writtenOrder by simp


subsection \<open>Two schemas that refer to each other\<close>

text \<open>The document
  \<^verbatim>\<open>components: {schemas: {A: {type: object, properties: {b: {$ref: '#/components/schemas/B'}}},
                         B: {type: object, properties: {a: {$ref: '#/components/schemas/A'}}}}}\<close>:
  the object types \<open>A\<close> and \<open>B\<close> each have a direct field of the other's type.\<close>

definition refA :: SchemaRef where
  "refA = mkRef ''#/components/schemas/A''"

definition refB :: SchemaRef where
  "refB = mkRef ''#/components/schemas/B''"

definition schemaA :: SchemaRef where
  "schemaA = mkSchema [''object''] [(''b'', refB)]"

definition schemaB :: SchemaRef where
  "schemaB = mkSchema [''object''] [(''a'', refA)]"

definition mutualDoc :: Doc where
  "mutualDoc = \<lparr>Components = Some \<lparr>Schemas = [(''A'', schemaA), (''B'', schemaB)]\<rparr>\<rparr>"

definition mutualParser :: Parser where
  "mutualParser = (mkParser [] [] emptyConfig [])\<lparr>doc := mutualDoc\<rparr>"

lemma getRefName_A: "getRefName ''#/components/schemas/A'' = ''A''"
  by (simp add: getRefName_def)

lemma getRefName_B: "getRefName ''#/components/schemas/B'' = ''B''"
  by (simp add: getRefName_def)

lemma convertSchema_mutual_diverges:
  assumes "validOrder ord"
  shows "\<forall>p. map_of (namedTypes p) ''A'' = None \<and> map_of (namedTypes p) ''B'' = None \<and>
             doc p = mutualDoc \<longrightarrow>
           convertSchema ord fuel p (Some schemaA) ''A'' True = None \<and>
           convertSchema ord fuel p (Some schemaB) ''B'' True = None \<and>
           convertSchema ord fuel p (Some refA) [] False = None \<and>
           convertSchema ord fuel p (Some refB) [] False = None"
proof (induction fuel)
  case 0
  show ?case by simp
next
  case (Suc n)
  show ?case
  proof (intro allI impI)
    fix p :: Parser
    assume h: "map_of (namedTypes p) ''A'' = None \<and> map_of (namedTypes p) ''B'' = None \<and>
             doc p = mutualDoc"
    have rng: "\<And>k e. rangeMap ord k [e] = [e]"
      using validOrder_single [OF assms] by (simp add: rangeMap_def List.map_filter_def)
    have a: "convertSchema ord (Suc n) p (Some schemaA) ''A'' True = None"
      using h Suc
      by (simp add: convertSchemaBody_def schemaA_def mkSchema_def convertNew_def
          convertObject_def rng convertProperty_def convertField_def Let_def)
    have b: "convertSchema ord (Suc n) p (Some schemaB) ''B'' True = None"
      using h Suc
      by (simp add: convertSchemaBody_def schemaB_def mkSchema_def convertNew_def
          convertObject_def rng convertProperty_def convertField_def Let_def)
    have c: "convertSchema ord (Suc n) p (Some refA) [] False = None"
      using h Suc
      by (simp add: convertSchemaBody_def refA_def mkRef_def getRefName_A mutualDoc_def)
    have d: "convertSchema ord (Suc n) p (Some refB) [] False = None"
      using h Suc
      by (simp add: convertSchemaBody_def refB_def mkRef_def getRefName_B mutualDoc_def)
    from a b c d
    show "convertSchema ord (Suc n) p (Some schemaA) ''A'' True = None \<and>
          convertSchema ord (Suc n) p (Some schemaB) ''B'' True = None \<and>
          convertSchema ord (Suc n) p (Some refA) [] False = None \<and>
          convertSchema ord (Suc n) p (Some refB) [] False = None" by simp
  qed
qed

text \<open>
  C8 (the code fails here). The object types \<open>A\<close> and \<open>B\<close> each have a direct field of the
  other's type. Whichever of the two \<open>processNamedTypes\<close> visits first, its call
  \<open>convertSchema(schema, name, true)\<close> does not return, whatever the fuel: neither type is in
  the registry before its fields are converted, so the conversion of \<open>A\<close> converts \<open>B\<close>,
  which converts \<open>A\<close> again. The build never reaches \<open>assignTypesToModules\<close>, where a cycle
  would be reported.
\<close>

theorem convertSchema_mutual_reference_diverges:
  "validOrder ord \<Longrightarrow>
   convertSchema ord fuel mutualParser (Some schemaA) ''A'' True = None \<and>
   convertSchema ord fuel mutualParser (Some schemaB) ''B'' True = None"
  using convertSchema_mutual_diverges [of ord fuel]
  by (simp add: mutualParser_def mkParser_def)

theorem convertSchema_mutual_reference_diverges_witness:
  "validOrder reverseOrder \<and>
   convertSchema reverseOrder 25 mutualParser (Some schemaA) ''A'' True = None \<and>
   convertSchema reverseOrder 25 mutualParser (Some schemaB) ''B'' True = None"
  using convertSchema_mutual_reference_diverges [OF validOrder_reverseOrder, of 25]
    validOrder_reverseOrder by simp


section \<open>Operation converter: convertOperation\<close>

text \<open>The \<open>switch param.Value.In\<close>: other locations are dropped.\<close>

definition addParameter :: "string \<Rightarrow> TyField \<Rightarrow> HttpHandler \<Rightarrow> HttpHandler" where
  "addParameter location parameter handler =
     (if location = ''header'' then handler\<lparr>HeaderParams := HeaderParams handler @ [parameter]\<rparr>
      else if location = ''path'' then handler\<lparr>PathParams := PathParams handler @ [parameter]\<rparr>
      else if location = ''query'' then handler\<lparr>QueryParams := QueryParams handler @ [parameter]\<rparr>
      else handler)"

text \<open>The loop over \<open>op.Parameters\<close>; \<open>convert\<close> is \<open>p.convertSchema\<close>.\<close>

fun convertParameters ::
  "converter \<Rightarrow> Parser \<Rightarrow> HttpHandler \<Rightarrow> Parameter option list \<Rightarrow> HttpHandler result" where
  "convertParameters convert p handler [] = Some (Inr handler, p)"
| "convertParameters convert p handler (None # rest) = convertParameters convert p handler rest"
| "convertParameters convert p handler (Some param # rest) =
     (case convert p (Schema_param param) [] False of
        None \<Rightarrow> None
      | Some (Inl e, p1) \<Rightarrow> Some (Inl (wrapErr ''failed to convert parameter schema: '' e), p1)
      | Some (Inr paramType, p1) \<Rightarrow>
          convertParameters convert p1
            (addParameter (In param)
               \<lparr>Name_field = Name_param param, Description_field = Description_param param,
                Type_field = Some paramType, Required = Required_param param,
                Default_field = []\<rparr> handler)
            rest)"

text \<open>The loop over the request body's content map: the first entry visited that has a
  schema is converted and decides the content type; the \<open>switch\<close> has no default case.\<close>

fun convertRequestContent ::
  "converter \<Rightarrow> Parser \<Rightarrow> HttpHandler \<Rightarrow> (string \<times> MediaType) list \<Rightarrow> HttpHandler result" where
  "convertRequestContent convert p handler [] = Some (Inr handler, p)"
| "convertRequestContent convert p handler ((contentType, content) # rest) =
     (case Schema_media content of
        None \<Rightarrow> convertRequestContent convert p handler rest
      | Some schema \<Rightarrow>
          (case convert p (Some schema) [] False of
             None \<Rightarrow> None
           | Some (Inl e, p1) \<Rightarrow>
               Some (Inl (wrapErr ''failed to convert request body schema: '' e), p1)
           | Some (Inr requestType, p1) \<Rightarrow>
               Some (Inr (handler\<lparr>RequestBody := Some requestType,
                            ContentType :=
                              (if contentType = ''multipart/form-data'' then ContentTypeFile
                               else if contentType = ''application/json'' then ContentTypeJson
                               else ContentType handler)\<rparr>), p1)))"

fun convertResponseContent ::
  "converter \<Rightarrow> Parser \<Rightarrow> HttpHandler \<Rightarrow> (string \<times> MediaType) list \<Rightarrow> HttpHandler result" where
  "convertResponseContent convert p handler [] = Some (Inr handler, p)"
| "convertResponseContent convert p handler ((contentType, content) # rest) =
     (case Schema_media content of
        None \<Rightarrow> convertResponseContent convert p handler rest
      | Some schema \<Rightarrow>
          (case convert p (Some schema) [] False of
             None \<Rightarrow> None
           | Some (Inl e, p1) \<Rightarrow>
               Some (Inl (wrapErr ''failed to convert response schema: '' e), p1)
           | Some (Inr responseType, p1) \<Rightarrow>
               Some (Inr (handler\<lparr>ResponseBody := Some responseType\<rparr>), p1)))"

text \<open>The request body part of \<open>convertOperation\<close>.\<close>

definition convertRequestBody ::
  "order \<Rightarrow> converter \<Rightarrow> Parser \<Rightarrow> HttpHandler \<Rightarrow> Operation \<Rightarrow> HttpHandler result" where
  "convertRequestBody ord convert p handler op =
     (case RequestBody_op op of
        None \<Rightarrow> Some (Inr handler, p)
      | Some requestBody \<Rightarrow>
          (case Value_requestBody requestBody of
             None \<Rightarrow> Some (Inr handler, p)
           | Some content \<Rightarrow>
               convertRequestContent convert (tick p) handler (rangeMap ord (ranges p) content)))"

text \<open>The response part: the response with status \<open>200\<close>; \<open>response.Value.Content\<close>
  dereferences \<open>response.Value\<close>.\<close>

definition convertResponseBody ::
  "order \<Rightarrow> converter \<Rightarrow> Parser \<Rightarrow> HttpHandler \<Rightarrow> Operation \<Rightarrow> HttpHandler result" where
  "convertResponseBody ord convert p handler op =
     (case map_of (Responses op) ''200'' of
        None \<Rightarrow> Some (Inr handler, p)
      | Some response \<Rightarrow>
          (case Value_response response of
             None \<Rightarrow> Some (Inl nilDeref, p)
           | Some content \<Rightarrow>
               convertResponseContent convert (tick p) handler (rangeMap ord (ranges p) content)))"

definition convertOperation ::
  "order \<Rightarrow> nat \<Rightarrow> Parser \<Rightarrow> string \<Rightarrow> string \<Rightarrow> Operation \<Rightarrow> HttpHandler result" where
  "convertOperation ord fuel p path method op =
     (case convertParameters (convertSchema ord fuel) p
             \<lparr>Name_handler = OperationID op, Description_handler = Description_op op,
              Path = path, Method = method, ContentType = ContentTypeJson,
              HeaderParams = [], PathParams = [], QueryParams = [],
              RequestBody = None, ResponseBody = None\<rparr>
             (Parameters op) of
        None \<Rightarrow> None
      | Some (Inl e, p1) \<Rightarrow> Some (Inl e, p1)
      | Some (Inr handler1, p1) \<Rightarrow>
          (case convertRequestBody ord (convertSchema ord fuel) p1 handler1 op of
             None \<Rightarrow> None
           | Some (Inl e, p2) \<Rightarrow> Some (Inl e, p2)
           | Some (Inr handler2, p2) \<Rightarrow>
               convertResponseBody ord (convertSchema ord fuel) p2 handler2 op))"

text \<open>The errors that \<open>convertOperation\<close> can return: a failed schema conversion of a
  parameter, of the request body or of the response, or a panic.\<close>

definition operationError :: "err \<Rightarrow> bool" where
  "operationError e \<longleftrightarrow>
     (\<exists>cause. e = wrapErr ''failed to convert parameter schema: '' cause) \<or>
     (\<exists>cause. e = wrapErr ''failed to convert request body schema: '' cause) \<or>
     (\<exists>cause. e = wrapErr ''failed to convert response schema: '' cause) \<or>
     e = nilDeref"

text \<open>The content type that the media type \<open>ct\<close> of a request body is classified as.\<close>

definition classify :: "string \<Rightarrow> ContentType" where
  "classify ct = (if ct = ''multipart/form-data'' then ContentTypeFile else ContentTypeJson)"

lemma operationError_intros:
  "operationError (wrapErr ''failed to convert parameter schema: '' cause)"
  "operationError (wrapErr ''failed to convert request body schema: '' cause)"
  "operationError (wrapErr ''failed to convert response schema: '' cause)"
  "operationError nilDeref"
  unfolding operationError_def by blast+

lemma convertParameters_result:
  "convertParameters convert p handler params = Some (r, p') \<Longrightarrow>
   (case r of
      Inl e \<Rightarrow> operationError e
    | Inr h \<Rightarrow> ContentType h = ContentType handler \<and> RequestBody h = RequestBody handler)"
proof (induction convert p handler params rule: convertParameters.induct)
  case (1 convert p handler)
  then show ?case by auto
next
  case (2 convert p handler rest)
  then show ?case by simp
next
  case (3 convert p handler param rest)
  show ?case
  proof (cases "convert p (Schema_param param) [] False")
    case None
    with 3 show ?thesis by simp
  next
    case (Some a)
    obtain x p1 where a: "a = (x, p1)" by (cases a)
    show ?thesis
    proof (cases x)
      case (Inl e)
      with "3.prems" Some a
      have "r = Inl (wrapErr ''failed to convert parameter schema: '' e)" by simp
      then show ?thesis by (simp only: sum.case operationError_intros)
    next
      case (Inr paramType)
      with 3 Some a show ?thesis
        by (auto simp: addParameter_def split: sum.splits)
    qed
  qed
qed

lemma convertResponseContent_result:
  "convertResponseContent convert p handler entries = Some (r, p') \<Longrightarrow>
   (case r of
      Inl e \<Rightarrow> operationError e
    | Inr h \<Rightarrow> ContentType h = ContentType handler \<and> RequestBody h = RequestBody handler)"
proof (induction entries)
  case Nil
  then show ?case by auto
next
  case (Cons entry rest)
  obtain contentType content where entry: "entry = (contentType, content)" by (cases entry)
  show ?case
  proof (cases "Schema_media content")
    case None
    with Cons.prems entry have "convertResponseContent convert p handler rest = Some (r, p')"
      by simp
    from Cons.IH [OF this] show ?thesis .
  next
    case (Some schema)
    note schema = Some
    show ?thesis
    proof (cases "convert p (Some schema) [] False")
      case None
      with Cons.prems entry schema show ?thesis by simp
    next
      case (Some a)
      obtain x p1 where a: "a = (x, p1)" by (cases a)
      show ?thesis
      proof (cases x)
        case (Inl e)
        with Cons.prems entry schema Some a
        have "r = Inl (wrapErr ''failed to convert response schema: '' e)" by simp
        then show ?thesis by (simp only: sum.case operationError_intros)
      next
        case (Inr responseType)
        with Cons.prems entry schema Some a
        have "r = Inr (handler\<lparr>ResponseBody := Some responseType\<rparr>)" by simp
        then show ?thesis by simp
      qed
    qed
  qed
qed

subsection \<open>Schemas whose conversion returns a type\<close>

text \<open>
  The conditions under which no step of \<open>convertSchema\<close> fails. The extension
  \<open>x-coze-order\<close> is absent, \<open>nil\<close> or a list of strings, and \<open>x-coze-enum-names\<close>, when
  it is a list, is a list of strings: the type assertions do not panic. Every schema
  node has a value, and every reference names a type of the registry (as it does for the
  references of an operation, which is converted after \<open>processNamedTypes\<close> has registered
  the components). The conditions hold for the schema, its items, its properties and the
  schema of its additional properties.
\<close>

fun isStr :: "json \<Rightarrow> bool" where
  "isStr (JStr s) = True"
| "isStr other = False"

definition declaredOrderOK :: "(string \<times> json) list \<Rightarrow> bool" where
  "declaredOrderOK extensions =
     (case map_of extensions ''x-coze-order'' of
        None \<Rightarrow> True
      | Some JNull \<Rightarrow> True
      | Some (JArr pnames) \<Rightarrow> list_all isStr pnames
      | Some other \<Rightarrow> False)"

definition enumNamesOK :: "(string \<times> json) list \<Rightarrow> bool" where
  "enumNamesOK extensions =
     (case map_of extensions ''x-coze-enum-names'' of
        Some (JArr enumNames) \<Rightarrow> list_all isStr enumNames
      | other \<Rightarrow> True)"

fun wellFormedRef :: "string set \<Rightarrow> SchemaRef \<Rightarrow> bool"
  and wellFormedSchema :: "string set \<Rightarrow> Schema \<Rightarrow> bool" where
  "wellFormedRef names (SchemaRef r None) = False"
| "wellFormedRef names (SchemaRef r (Some sv)) =
     (if r \<noteq> [] then getRefName r \<in> names else wellFormedSchema names sv)"
| "wellFormedSchema names
     (Schema typ format title description enum items props required additional extensions) =
     (declaredOrderOK extensions \<and> enumNamesOK extensions \<and>
      (case items of None \<Rightarrow> True | Some s \<Rightarrow> wellFormedRef names s) \<and>
      list_all (\<lambda>(k, s). wellFormedRef names s) props \<and>
      (case additional of None \<Rightarrow> True | Some s \<Rightarrow> wellFormedRef names s))"


text \<open>The names in the registry.\<close>

definition registered :: "Parser \<Rightarrow> string set" where
  "registered p = fst ` set (namedTypes p)"

text \<open>\<open>self\<close> returns a type for every well-formed schema of size below \<open>k\<close>, in every state
  whose registry has the names, and keeps the registry's names.\<close>

definition converterOK :: "string set \<Rightarrow> nat \<Rightarrow> converter \<Rightarrow> bool" where
  "converterOK names k self \<longleftrightarrow>
     (\<forall>p sr name isNamed.
        names \<subseteq> registered p \<and> wellFormedRef names sr \<and> size sr < k \<longrightarrow>
        (\<exists>ty p'. self p (Some sr) name isNamed = Some (Inr ty, p') \<and>
           registered p \<subseteq> registered p'))"

lemma wellFormedSchema_parts:
  assumes "wellFormedSchema names sv"
  shows "declaredOrderOK (Extensions sv)" and "enumNamesOK (Extensions sv)"
    and "\<And>i. Items sv = Some i \<Longrightarrow> wellFormedRef names i"
    and "\<And>k s. (k, s) \<in> set (Properties sv) \<Longrightarrow> wellFormedRef names s"
    and "\<And>a. AdditionalProperties_Schema sv = Some a \<Longrightarrow> wellFormedRef names a"
  using assms by (cases sv; auto simp: list_all_iff)+

lemma size_property:
  "(k, s) \<in> set props \<Longrightarrow> size s < size_list (size_prod (\<lambda>x. 0) size) props"
  by (induction props) auto

lemma size_parts:
  shows "\<And>i. Items sv = Some i \<Longrightarrow> size i < size sv"
    and "\<And>k s. (k, s) \<in> set (Properties sv) \<Longrightarrow> size s < size sv"
    and "\<And>a. AdditionalProperties_Schema sv = Some a \<Longrightarrow> size a < size sv"
  by (cases sv; auto dest: size_property)+

lemma wellFormedRef_value:
  assumes "wellFormedRef names sr"
  shows "\<exists>sv. Value sr = Some sv \<and> size sv < size sr \<and>
           (if Ref sr \<noteq> [] then getRefName (Ref sr) \<in> names else wellFormedSchema names sv)"
  using assms by (cases sr; cases "Value sr"; auto)

lemma registered_setTy [simp]: "registered (setTy p ty f) = registered p"
  by (simp add: registered_def)

lemma registered_tick [simp]: "registered (tick p) = registered p"
  by (simp add: registered_def)

lemma registered_registerTy: "registered p \<subseteq> registered (registerTy p ty name isNamed)"
  by (auto simp: registered_def registerTy_def dom_update)

lemma zipEnumNames_ok: "list_all isStr ns \<Longrightarrow> \<exists>r. zipEnumNames vs ns = Inr r"
proof (induction vs ns rule: zipEnumNames.induct)
  case (1 v vs n ns)
  then show ?case by auto
qed simp_all

lemma enumValuesOf_ok: "enumNamesOK (Extensions sv) \<Longrightarrow> \<exists>vs. enumValuesOf sv = Inr vs"
  by (auto simp: enumValuesOf_def enumNamesOK_def Let_def zipEnumNames_ok
      split: option.splits json.splits)

lemma convertField_ok:
  assumes "converterOK names k self" and "names \<subseteq> registered p"
    and "wellFormedRef names schema" and "size schema < k"
  shows "\<exists>field p'. convertField self p name schema required = Some (Inr field, p') \<and>
           registered p \<subseteq> registered p'"
proof -
  from assms obtain ty p1 where
    s: "self p (Some schema) [] False = Some (Inr ty, p1)" "registered p \<subseteq> registered p1"
    unfolding converterOK_def by blast
  from wellFormedRef_value [OF assms(3)] obtain sv where "Value schema = Some sv" by blast
  with s show ?thesis by (simp add: convertField_def)
qed

lemma convertProperty_ok:
  assumes "converterOK names k self" and "names \<subseteq> registered p"
    and "wellFormedRef names prop" and "size prop < k"
  shows "\<exists>p'. convertProperty self p ty sv propName prop = Some (None, p') \<and>
           registered p \<subseteq> registered p'"
proof -
  from convertField_ok [OF assms, of propName "Required_schema sv"] obtain field p1 where
    "convertField self p propName prop (Required_schema sv) = Some (Inr field, p1)"
    "registered p \<subseteq> registered p1" by blast
  then show ?thesis by (simp add: convertProperty_def)
qed

lemma convertUnordered_ok:
  assumes "converterOK names k self"
  shows "names \<subseteq> registered p \<Longrightarrow>
         \<forall>e\<in>set entries. wellFormedRef names (snd e) \<and> size (snd e) < k \<Longrightarrow>
         \<exists>p'. convertUnordered self p ty sv entries = Some (None, p') \<and>
           registered p \<subseteq> registered p'"
proof (induction entries arbitrary: p)
  case Nil
  show ?case by simp
next
  case (Cons entry rest)
  obtain propName pr where entry: "entry = (propName, pr)" by (cases entry)
  have "wellFormedRef names pr \<and> size pr < k" using Cons.prems(2) entry by simp
  with convertProperty_ok [OF assms Cons.prems(1), of pr ty sv propName] obtain p1 where
    s: "convertProperty self p ty sv propName pr = Some (None, p1)"
    "registered p \<subseteq> registered p1" by blast
  have n1: "names \<subseteq> registered p1" using Cons.prems(1) s(2) by blast
  have rest: "\<forall>e\<in>set rest. wellFormedRef names (snd e) \<and> size (snd e) < k"
    using Cons.prems(2) by simp
  from Cons.IH [OF n1 rest] obtain p' where
    "convertUnordered self p1 ty sv rest = Some (None, p')" "registered p1 \<subseteq> registered p'"
    by blast
  with s entry show ?case by auto
qed

lemma convertOrdered_ok:
  assumes "converterOK names k self"
    and "\<forall>e\<in>set (Properties sv). wellFormedRef names (snd e) \<and> size (snd e) < k"
  shows "names \<subseteq> registered p \<Longrightarrow> list_all isStr pnames \<Longrightarrow>
         \<exists>p'. convertOrdered self p ty sv pnames = Some (None, p') \<and>
           registered p \<subseteq> registered p'"
proof (induction pnames arbitrary: p)
  case Nil
  show ?case by simp
next
  case (Cons pname rest)
  from Cons.prems(2) obtain propName where pname: "pname = JStr propName"
    by (cases pname) auto
  from Cons.prems(2) have rest: "list_all isStr rest" by simp
  show ?case
  proof (cases "map_of (Properties sv) propName")
    case None
    with Cons.IH [OF Cons.prems(1) rest] pname show ?thesis by simp
  next
    case (Some pr)
    then have "(propName, pr) \<in> set (Properties sv)" by (rule map_of_SomeD)
    with assms(2) have "wellFormedRef names pr \<and> size pr < k" by fastforce
    with convertProperty_ok [OF assms(1) Cons.prems(1), of pr ty sv propName] obtain p1 where
      s: "convertProperty self p ty sv propName pr = Some (None, p1)"
      "registered p \<subseteq> registered p1" by blast
    have "names \<subseteq> registered p1" using Cons.prems(1) s(2) by blast
    from Cons.IH [OF this rest] obtain p' where
      "convertOrdered self p1 ty sv rest = Some (None, p')" "registered p1 \<subseteq> registered p'"
      by blast
    with s pname Some show ?thesis by auto
  qed
qed

lemma convertObject_ok:
  assumes "converterOK names k self" and "names \<subseteq> registered p"
    and "declaredOrderOK (Extensions sv)"
    and props: "\<forall>e\<in>set (Properties sv). wellFormedRef names (snd e) \<and> size (snd e) < k"
  shows "\<exists>p'. convertObject ord self p ty sv = Some (None, p') \<and> registered p \<subseteq> registered p'"
proof -
  have "\<forall>e\<in>set (rangeMap ord (ranges p) (Properties sv)).
          wellFormedRef names (snd e) \<and> size (snd e) < k"
    using props by (auto simp: set_rangeMap dest!: map_of_SomeD)
  from convertUnordered_ok [OF assms(1), of "tick p", OF _ this] assms(2)
  have u: "\<exists>p'. convertUnordered self (tick p) ty sv
                  (rangeMap ord (ranges p) (Properties sv)) = Some (None, p') \<and>
                registered p \<subseteq> registered p'"
    by simp
  show ?thesis
  proof (cases "map_of (Extensions sv) ''x-coze-order''")
    case None
    with u show ?thesis by (simp add: convertObject_def Let_def)
  next
    case (Some j)
    show ?thesis
    proof (cases j)
      case JNull
      with Some u show ?thesis by (simp add: convertObject_def Let_def)
    next
      case (JArr pnames)
      with Some assms(3) have "list_all isStr pnames" by (simp add: declaredOrderOK_def)
      from convertOrdered_ok [where ty = ty, OF assms(1) props assms(2) this] Some JArr
      show ?thesis by (simp add: convertObject_def Let_def)
    qed (use Some assms(3) in \<open>simp_all add: declaredOrderOK_def\<close>)
  qed
qed

lemma convertNew_ok:
  assumes ok: "converterOK names k self" and n: "names \<subseteq> registered p"
    and wf: "wellFormedSchema names sv" and sz: "size sv \<le> k"
  shows "\<exists>p'. convertNew ord self p ty sv name isNamed = Some (Inr ty, p') \<and>
           registered p \<subseteq> registered p'"
proof (cases "AdditionalProperties_Schema sv")
  case (Some valueSchema)
  have "wellFormedRef names valueSchema" "size valueSchema < k"
    using wellFormedSchema_parts(5) [OF wf Some] size_parts(3) [OF Some] sz by simp_all
  with ok n obtain valueType p2 where
    "self (setTy p ty (\<lambda>t. t\<lparr>Kind := TyKindMap\<rparr>)) (Some valueSchema) [] False =
       Some (Inr valueType, p2)"
    "registered p \<subseteq> registered p2"
    unfolding converterOK_def
    by (metis registered_setTy)
  with Some show ?thesis by (simp add: convertNew_def)
next
  case None
  note additional = None
  show ?thesis
  proof (cases "Type sv = []")
    case True
    with additional show ?thesis by (simp add: convertNew_def registered_registerTy)
  next
    case False
    note tp = False
    show ?thesis
    proof (cases "hd (Type sv) = ''array''")
      case True
      note array = True
      show ?thesis
      proof (cases "Items sv")
        case None
        have "registered p \<subseteq>
            registered (registerTy (setTy p ty (\<lambda>t. t\<lparr>Kind := TyKindArray\<rparr>)) ty name isNamed)"
          using registered_registerTy [of "setTy p ty (\<lambda>t. t\<lparr>Kind := TyKindArray\<rparr>)"] by simp
        with additional tp array None show ?thesis by (simp add: convertNew_def)
      next
        case (Some items)
        have "wellFormedRef names items" "size items < k"
          using wellFormedSchema_parts(3) [OF wf Some] size_parts(1) [OF Some] sz by simp_all
        with ok n obtain elementType p2 where
          s: "self (setTy p ty (\<lambda>t. t\<lparr>Kind := TyKindArray\<rparr>)) (Some items) [] False =
             Some (Inr elementType, p2)"
          "registered p \<subseteq> registered p2"
          unfolding converterOK_def
          by (metis registered_setTy)
        have "registered p2 \<subseteq>
            registered (registerTy (setTy p2 ty (\<lambda>t. t\<lparr>ElementType := Some elementType\<rparr>))
              ty name isNamed)"
          using registered_registerTy
            [of "setTy p2 ty (\<lambda>t. t\<lparr>ElementType := Some elementType\<rparr>)"] by simp
        with s additional tp array Some show ?thesis
          by (simp add: convertNew_def)
      qed
    next
      case False
      note notArray = False
      show ?thesis
      proof (cases "hd (Type sv) = ''object''")
        case True
        have props: "\<forall>e\<in>set (Properties sv). wellFormedRef names (snd e) \<and> size (snd e) < k"
        proof
          fix e
          assume e: "e \<in> set (Properties sv)"
          obtain n s where ns: "e = (n, s)" by (cases e)
          from wellFormedSchema_parts(4) [OF wf, of n s] size_parts(2) [of n s sv] e ns sz
          show "wellFormedRef names (snd e) \<and> size (snd e) < k" by simp
        qed
        have "names \<subseteq> registered (setTy p ty (\<lambda>t. t\<lparr>Kind := TyKindObject\<rparr>))"
          using n by simp
        from convertObject_ok [OF ok this wellFormedSchema_parts(1) [OF wf] props, of ord ty]
        obtain p2 where
          s: "convertObject ord self (setTy p ty (\<lambda>t. t\<lparr>Kind := TyKindObject\<rparr>)) ty sv =
               Some (None, p2)"
          "registered p \<subseteq> registered p2" by auto
        have "registered p2 \<subseteq> registered (registerTy p2 ty name isNamed)"
          by (rule registered_registerTy)
        with s additional tp notArray True show ?thesis
          by (simp add: convertNew_def)
      next
        case False
        from enumValuesOf_ok [OF wellFormedSchema_parts(2) [OF wf]] obtain vals where
          v: "enumValuesOf sv = Inr vals" by blast
        have "registered p \<subseteq>
            registered (registerTy
                     (setTy p ty (\<lambda>t. t\<lparr>Kind := TyKindPrimitive,
                        PrimitiveKind := convertPrimitiveType (Type sv) (Format sv),
                        EnumValues := vals\<rparr>))
                     ty name isNamed)"
          using registered_registerTy
            [of "setTy p ty (\<lambda>t. t\<lparr>Kind := TyKindPrimitive,
                        PrimitiveKind := convertPrimitiveType (Type sv) (Format sv),
                        EnumValues := vals\<rparr>)"] by simp
        with v additional tp notArray False show ?thesis by (simp add: convertNew_def)
      qed
    qed
  qed
qed

lemma convertSchemaBody_ok:
  assumes "converterOK names k self"
  shows "converterOK names (Suc k) (convertSchemaBody ord self)"
  unfolding converterOK_def
proof (intro allI impI)
  fix p :: Parser and sr name isNamed
  assume h: "names \<subseteq> registered p \<and> wellFormedRef names sr \<and> size sr < Suc k"
  from wellFormedRef_value [of names sr] h obtain sv where
    sv: "Value sr = Some sv" "size sv < size sr"
    and w: "if Ref sr \<noteq> [] then getRefName (Ref sr) \<in> names else wellFormedSchema names sv"
    by blast
  show "\<exists>ty p'. convertSchemaBody ord self p (Some sr) name isNamed = Some (Inr ty, p') \<and>
           registered p \<subseteq> registered p'"
  proof (cases "Ref sr \<noteq> []")
    case True
    with w h have "getRefName (Ref sr) \<in> fst ` set (namedTypes p)"
      by (auto simp: registered_def)
    then obtain existing where "map_of (namedTypes p) (getRefName (Ref sr)) = Some existing"
      by (metis domD dom_map_of_conv_image_fst)
    with True sv show ?thesis by (simp add: convertSchemaBody_def)
  next
    case False
    let ?p1 = "p\<lparr>store := store p @
                 [newTy name isNamed
                    (Choose (Title sv \<noteq> []) (Title sv) (Description_schema sv))]\<rparr>"
    have r: "registered ?p1 = registered p" by (simp add: registered_def)
    from False w have wf: "wellFormedSchema names sv" by simp
    from sv h have sz: "size sv \<le> k" by simp
    from h r have "names \<subseteq> registered ?p1" by simp
    from convertNew_ok [OF assms this wf sz, of ord "length (store p)" name isNamed] r
    have "\<exists>p'. convertNew ord self ?p1 (length (store p)) sv name isNamed =
            Some (Inr (length (store p)), p') \<and> registered p \<subseteq> registered p'"
      by simp
    with False sv show ?thesis by (simp add: convertSchemaBody_def) blast
  qed
qed

lemma convertSchema_ok: "converterOK names k (convertSchema ord k)"
proof (induction k)
  case 0
  show ?case by (simp add: converterOK_def)
next
  case (Suc k)
  then show ?case by (simp add: convertSchemaBody_ok)
qed


subsection \<open>Operations whose conversion returns a handler\<close>

text \<open>
  A schema that is well formed and smaller than the fuel (\<open>size\<close> counts the nodes of the
  schema, so it bounds the depth of the calls of \<open>convertSchema\<close>); an operation is well
  formed when every parameter has such a schema, every schema of its request body and of
  its response \<open>200\<close> is such a schema, and the response \<open>200\<close>, if there is one, has a
  value.
\<close>

definition goodSchema :: "string set \<Rightarrow> nat \<Rightarrow> SchemaRef \<Rightarrow> bool" where
  "goodSchema names fuel s \<longleftrightarrow> wellFormedRef names s \<and> size s < fuel"

definition goodContent :: "string set \<Rightarrow> nat \<Rightarrow> (string \<times> MediaType) list \<Rightarrow> bool" where
  "goodContent names fuel content =
     list_all (\<lambda>entry. case Schema_media (snd entry) of
                          None \<Rightarrow> True
                        | Some s \<Rightarrow> goodSchema names fuel s) content"

definition goodParameter :: "string set \<Rightarrow> nat \<Rightarrow> Parameter option \<Rightarrow> bool" where
  "goodParameter names fuel param =
     (case param of
        None \<Rightarrow> True
      | Some q \<Rightarrow> (case Schema_param q of None \<Rightarrow> False | Some s \<Rightarrow> goodSchema names fuel s))"

definition wellFormedOperation :: "string set \<Rightarrow> nat \<Rightarrow> Operation \<Rightarrow> bool" where
  "wellFormedOperation names fuel op \<longleftrightarrow>
     list_all (goodParameter names fuel) (Parameters op) \<and>
     (case RequestBody_op op of
        None \<Rightarrow> True
      | Some body \<Rightarrow>
          (case Value_requestBody body of
             None \<Rightarrow> True
           | Some content \<Rightarrow> goodContent names fuel content)) \<and>
     (case map_of (Responses op) ''200'' of
        None \<Rightarrow> True
      | Some response \<Rightarrow>
          (case Value_response response of
             None \<Rightarrow> False
           | Some content \<Rightarrow> goodContent names fuel content))"

text \<open>The media types of the request body's entries that have a schema.\<close>

definition requestMediaTypes :: "Operation \<Rightarrow> string list" where
  "requestMediaTypes op =
     (case RequestBody_op op of
        None \<Rightarrow> []
      | Some body \<Rightarrow>
          (case Value_requestBody body of
             None \<Rightarrow> []
           | Some content \<Rightarrow>
               filter (\<lambda>ct. case map_of content ct of
                              None \<Rightarrow> False
                            | Some mt \<Rightarrow> Schema_media mt \<noteq> None)
                 (map fst content)))"

lemma convertParameters_ok:
  assumes "converterOK names k convert"
  shows "names \<subseteq> registered p \<Longrightarrow> list_all (goodParameter names k) params \<Longrightarrow>
         \<exists>h p'. convertParameters convert p handler params = Some (Inr h, p') \<and>
           registered p \<subseteq> registered p'"
proof (induction params arbitrary: p handler)
  case Nil
  show ?case by simp
next
  case (Cons param rest)
  from Cons.prems(2) have rest: "list_all (goodParameter names k) rest" by simp
  show ?case
  proof (cases param)
    case None
    with Cons.IH [OF Cons.prems(1) rest] show ?thesis by simp
  next
    case (Some q)
    with Cons.prems(2) obtain s where s: "Schema_param q = Some s" "wellFormedRef names s"
      "size s < k"
      by (auto simp: goodParameter_def goodSchema_def split: option.splits)
    with assms Cons.prems(1) obtain paramType p1 where
      c: "convert p (Some s) [] False = Some (Inr paramType, p1)"
      "registered p \<subseteq> registered p1"
      unfolding converterOK_def by blast
    have "names \<subseteq> registered p1" using Cons.prems(1) c(2) by blast
    from Cons.IH [OF this rest] obtain h p' where
      "convertParameters convert p1
            (addParameter (In q)
               \<lparr>Name_field = Name_param q, Description_field = Description_param q,
                Type_field = Some paramType, Required = Required_param q,
                Default_field = []\<rparr> handler)
            rest = Some (Inr h, p')" "registered p1 \<subseteq> registered p'"
      by blast
    with c s Some show ?thesis by auto
  qed
qed

lemma convertRequestContent_ok:
  assumes "converterOK names k convert" and "names \<subseteq> registered p"
    and "goodContent names k entries"
  shows "\<exists>h p'. convertRequestContent convert p handler entries = Some (Inr h, p') \<and>
           registered p \<subseteq> registered p'"
  using assms(3)
proof (induction entries)
  case Nil
  show ?case by simp
next
  case (Cons entry rest)
  obtain contentType content where entry: "entry = (contentType, content)" by (cases entry)
  show ?case
  proof (cases "Schema_media content")
    case None
    with Cons entry show ?thesis by (simp add: goodContent_def)
  next
    case (Some s)
    with Cons.prems entry have "wellFormedRef names s" "size s < k"
      by (simp_all add: goodContent_def goodSchema_def)
    with assms(1,2) obtain requestType p1 where
      "convert p (Some s) [] False = Some (Inr requestType, p1)"
      "registered p \<subseteq> registered p1"
      unfolding converterOK_def by blast
    with Some entry show ?thesis by simp
  qed
qed

lemma convertResponseContent_ok:
  assumes "converterOK names k convert" and "names \<subseteq> registered p"
    and "goodContent names k entries"
  shows "\<exists>h p'. convertResponseContent convert p handler entries = Some (Inr h, p') \<and>
           registered p \<subseteq> registered p'"
  using assms(3)
proof (induction entries)
  case Nil
  show ?case by simp
next
  case (Cons entry rest)
  obtain contentType content where entry: "entry = (contentType, content)" by (cases entry)
  show ?case
  proof (cases "Schema_media content")
    case None
    with Cons entry show ?thesis by (simp add: goodContent_def)
  next
    case (Some s)
    with Cons.prems entry have "wellFormedRef names s" "size s < k"
      by (simp_all add: goodContent_def goodSchema_def)
    with assms(1,2) obtain responseType p1 where
      "convert p (Some s) [] False = Some (Inr responseType, p1)"
      "registered p \<subseteq> registered p1"
      unfolding converterOK_def by blast
    with Some entry show ?thesis by simp
  qed
qed

lemma goodContent_rangeMap:
  "goodContent names k content \<Longrightarrow> goodContent names k (rangeMap ord n content)"
  by (auto simp: goodContent_def list_all_iff set_rangeMap dest!: map_of_SomeD)

lemma convertOperation_ok:
  assumes "wellFormedOperation (registered p) fuel op"
  shows "\<exists>h p'. convertOperation ord fuel p path method op = Some (Inr h, p')"
proof -
  let ?names = "registered p"
  let ?conv = "convertSchema ord fuel"
  let ?h0 = "\<lparr>Name_handler = OperationID op, Description_handler = Description_op op,
              Path = path, Method = method, ContentType = ContentTypeJson,
              HeaderParams = [], PathParams = [], QueryParams = [],
              RequestBody = None, ResponseBody = None\<rparr>"
  have ok: "converterOK ?names fuel ?conv" by (rule convertSchema_ok)
  from assms have params: "list_all (goodParameter ?names fuel) (Parameters op)"
    by (simp add: wellFormedOperation_def)
  from convertParameters_ok [OF ok subset_refl params, of ?h0] obtain h1 p1 where
    s1: "convertParameters ?conv p ?h0 (Parameters op) = Some (Inr h1, p1)"
    and n1: "?names \<subseteq> registered p1" by blast
  have "\<exists>h2 p2. convertRequestBody ord ?conv p1 h1 op = Some (Inr h2, p2) \<and>
          registered p1 \<subseteq> registered p2"
  proof (cases "RequestBody_op op")
    case None
    then show ?thesis by (simp add: convertRequestBody_def)
  next
    case (Some body)
    note body = Some
    show ?thesis
    proof (cases "Value_requestBody body")
      case None
      with body show ?thesis by (simp add: convertRequestBody_def)
    next
      case (Some content)
      with assms body have "goodContent ?names fuel content"
        by (simp add: wellFormedOperation_def)
      then have g: "goodContent ?names fuel (rangeMap ord (ranges p1) content)"
        by (rule goodContent_rangeMap)
      from n1 have "?names \<subseteq> registered (tick p1)" by simp
      from convertRequestContent_ok [OF ok this g, of h1] body Some
      show ?thesis by (simp add: convertRequestBody_def)
    qed
  qed
  then obtain h2 p2 where
    s2: "convertRequestBody ord ?conv p1 h1 op = Some (Inr h2, p2)"
    and n2: "registered p1 \<subseteq> registered p2" by blast
  have "\<exists>h3 p3. convertResponseBody ord ?conv p2 h2 op = Some (Inr h3, p3)"
  proof (cases "map_of (Responses op) ''200''")
    case None
    then show ?thesis by (simp add: convertResponseBody_def)
  next
    case (Some response)
    with assms obtain content where content: "Value_response response = Some content"
      "goodContent ?names fuel content"
      by (auto simp: wellFormedOperation_def split: option.splits)
    then have g: "goodContent ?names fuel (rangeMap ord (ranges p2) content)"
      by (simp add: goodContent_rangeMap)
    from n1 n2 have "?names \<subseteq> registered (tick p2)" by auto
    from convertResponseContent_ok [OF ok this g, of h2] Some content
    show ?thesis by (auto simp: convertResponseBody_def)
  qed
  with s1 s2 show ?thesis by (simp add: convertOperation_def)
qed

lemma convertRequestContent_result:
  "convertRequestContent convert p handler entries = Some (r, p') \<Longrightarrow>
   (case r of
      Inl e \<Rightarrow> operationError e
    | Inr h \<Rightarrow>
        if list_all (\<lambda>entry. Schema_media (snd entry) = None) entries then h = handler
        else RequestBody h \<noteq> None \<and>
          (\<exists>ct mt. (ct, mt) \<in> set entries \<and> Schema_media mt \<noteq> None \<and>
             ContentType h =
               (if ct = ''multipart/form-data'' then ContentTypeFile
                else if ct = ''application/json'' then ContentTypeJson
                else ContentType handler)))"
proof (induction entries)
  case Nil
  then show ?case by auto
next
  case (Cons entry rest)
  obtain contentType content where entry: "entry = (contentType, content)" by (cases entry)
  show ?case
  proof (cases "Schema_media content")
    case None
    with Cons.prems entry have "convertRequestContent convert p handler rest = Some (r, p')"
      by simp
    note ih = Cons.IH [OF this]
    have l: "list_all (\<lambda>entry. Schema_media (snd entry) = None) (entry # rest) =
             list_all (\<lambda>entry. Schema_media (snd entry) = None) rest"
      using None entry by simp
    show ?thesis
    proof (cases r)
      case (Inl e)
      with ih show ?thesis by (simp only: sum.case)
    next
      case (Inr h)
      show ?thesis
      proof (cases "list_all (\<lambda>entry. Schema_media (snd entry) = None) rest")
        case True
        from ih have "h = handler" unfolding Inr by (simp only: sum.case True if_True)
        then show ?thesis unfolding Inr by (simp only: sum.case l True if_True)
      next
        case False
        from ih obtain ct mt where b: "RequestBody h \<noteq> None"
          and e: "(ct, mt) \<in> set rest" "Schema_media mt \<noteq> None"
          and t: "ContentType h =
               (if ct = ''multipart/form-data'' then ContentTypeFile
                else if ct = ''application/json'' then ContentTypeJson
                else ContentType handler)"
          unfolding Inr by (simp only: sum.case False if_False) blast
        from e(1) have "(ct, mt) \<in> set (entry # rest)" by simp
        with b e(2) t show ?thesis unfolding Inr
          by (simp only: sum.case l False if_False) blast
      qed
    qed
  next
    case (Some schema)
    note schema = Some
    show ?thesis
    proof (cases "convert p (Some schema) [] False")
      case None
      with Cons.prems entry schema show ?thesis by simp
    next
      case (Some a)
      obtain x p1 where a: "a = (x, p1)" by (cases a)
      show ?thesis
      proof (cases x)
        case (Inl e)
        with Cons.prems entry schema Some a
        have "r = Inl (wrapErr ''failed to convert request body schema: '' e)" by simp
        then show ?thesis by (simp only: sum.case operationError_intros)
      next
        case (Inr requestType)
        define h where "h = handler\<lparr>RequestBody := Some requestType,
                            ContentType :=
                              (if contentType = ''multipart/form-data'' then ContentTypeFile
                               else if contentType = ''application/json'' then ContentTypeJson
                               else ContentType handler)\<rparr>"
        from Inr Cons.prems entry schema Some a
        have r: "r = Inr h" by (simp add: h_def)
        have m: "(contentType, content) \<in> set (entry # rest)" using entry by simp
        have c: "ContentType h =
             (if contentType = ''multipart/form-data'' then ContentTypeFile
              else if contentType = ''application/json'' then ContentTypeJson
              else ContentType handler)" by (simp add: h_def)
        have b: "RequestBody h \<noteq> None" by (simp add: h_def)
        have s: "Schema_media content \<noteq> None" using schema by simp
        have n: "\<not> list_all (\<lambda>entry. Schema_media (snd entry) = None) (entry # rest)"
          using entry schema by simp
        from m s b c have "RequestBody h \<noteq> None \<and>
          (\<exists>ct mt. (ct, mt) \<in> set (entry # rest) \<and> Schema_media mt \<noteq> None \<and>
             ContentType h =
               (if ct = ''multipart/form-data'' then ContentTypeFile
                else if ct = ''application/json'' then ContentTypeJson
                else ContentType handler))" by blast
        then show ?thesis unfolding r by (simp only: sum.case n if_False simp_thms)
      qed
    qed
  qed
qed

lemma requestMediaTypes_set:
  assumes "RequestBody_op op = Some body" and "Value_requestBody body = Some content"
  shows "set (requestMediaTypes op) =
           {ct. \<exists>mt. map_of content ct = Some mt \<and> Schema_media mt \<noteq> None}"
proof -
  have "\<And>ct mt. map_of content ct = Some mt \<Longrightarrow> ct \<in> fst ` set content"
    by (metis map_of_SomeD fst_conv image_eqI)
  then show ?thesis
    using assms by (auto simp: requestMediaTypes_def split: option.splits)
qed

lemma requestMediaTypes_entries:
  assumes "validOrder ord" and "RequestBody_op op = Some body"
    and "Value_requestBody body = Some content"
  shows "list_all (\<lambda>entry. Schema_media (snd entry) = None) (rangeMap ord n content) \<longleftrightarrow>
           requestMediaTypes op = []"
    and "(ct, mt) \<in> set (rangeMap ord n content) \<Longrightarrow> Schema_media mt \<noteq> None \<Longrightarrow>
           ct \<in> set (requestMediaTypes op)"
proof -
  have e: "set (rangeMap ord n content) = {(k, v). map_of content k = Some v}"
    by (rule set_rangeMap_valid [OF assms(1)])
  note s = requestMediaTypes_set [OF assms(2,3)]
  have "(requestMediaTypes op = []) = (set (requestMediaTypes op) = {})" by simp
  also have "\<dots> = (\<forall>k v. map_of content k = Some v \<longrightarrow> Schema_media v = None)"
    unfolding s by auto
  also have "\<dots> = list_all (\<lambda>entry. Schema_media (snd entry) = None) (rangeMap ord n content)"
    unfolding list_all_iff e by auto
  finally show "list_all (\<lambda>entry. Schema_media (snd entry) = None) (rangeMap ord n content) \<longleftrightarrow>
           requestMediaTypes op = []" by simp
  show "(ct, mt) \<in> set (rangeMap ord n content) \<Longrightarrow> Schema_media mt \<noteq> None \<Longrightarrow>
           ct \<in> set (requestMediaTypes op)"
    unfolding s e by blast
qed

lemma convertRequestBody_result:
  assumes "validOrder ord"
    and "convertRequestBody ord convert p handler op = Some (r, p')"
  shows "case r of
      Inl e \<Rightarrow> operationError e
    | Inr h \<Rightarrow>
        if requestMediaTypes op = [] then h = handler
        else RequestBody h \<noteq> None \<and>
          (\<exists>ct\<in>set (requestMediaTypes op).
             ContentType h =
               (if ct = ''multipart/form-data'' then ContentTypeFile
                else if ct = ''application/json'' then ContentTypeJson
                else ContentType handler))"
proof (cases "RequestBody_op op")
  case None
  with assms(2) show ?thesis by (auto simp: convertRequestBody_def requestMediaTypes_def)
next
  case (Some body)
  note body = Some
  show ?thesis
  proof (cases "Value_requestBody body")
    case None
    with assms(2) body show ?thesis
      by (auto simp: convertRequestBody_def requestMediaTypes_def)
  next
    case (Some content)
    let ?entries = "rangeMap ord (ranges p) content"
    note m = requestMediaTypes_entries [where n = "ranges p", OF assms(1) body Some]
    from assms(2) body Some
    have "convertRequestContent convert (tick p) handler ?entries = Some (r, p')"
      by (simp add: convertRequestBody_def)
    note c = convertRequestContent_result [OF this]
    show ?thesis
    proof (cases r)
      case (Inl e)
      with c show ?thesis by (simp only: sum.case)
    next
      case (Inr h)
      show ?thesis
      proof (cases "requestMediaTypes op = []")
        case True
        with m(1) have la: "list_all (\<lambda>entry. Schema_media (snd entry) = None) ?entries"
          by simp
        from c have "h = handler" unfolding Inr by (simp only: sum.case la if_True)
        then show ?thesis unfolding Inr by (simp add: True)
      next
        case False
        with m(1) have la: "\<not> list_all (\<lambda>entry. Schema_media (snd entry) = None) ?entries"
          by simp
        from c obtain ct mt where
          b: "RequestBody h \<noteq> None" and
          e: "(ct, mt) \<in> set ?entries" "Schema_media mt \<noteq> None" and
          t: "ContentType h =
               (if ct = ''multipart/form-data'' then ContentTypeFile
                else if ct = ''application/json'' then ContentTypeJson
                else ContentType handler)"
          unfolding Inr by (simp only: sum.case la if_False) blast
        from m(2) [OF e] have "ct \<in> set (requestMediaTypes op)" .
        with b t show ?thesis unfolding Inr by (simp only: sum.case False if_False) blast
      qed
    qed
  qed
qed


text \<open>
  C3 (as the code has it). Whenever \<open>convertOperation\<close> returns, for every order of map
  iteration: a returned handler of an operation whose request body has no entry with a
  schema has no request body and is structured; a returned handler of an operation whose
  request body has such an entry has a request body, and is classified by the media type
  of one of these entries: file-upload for \<open>multipart/form-data\<close> and structured for every
  other media type. A returned error is that of a schema conversion (of a parameter, the
  request body or the response) or of a response without value: no media type is an
  error. And \<open>convertOperation\<close> does return a handler, whatever the media types, for
  every operation whose schemas are well formed, refer only to registered types and are
  smaller than the fuel.
\<close>

theorem convertOperation_contentType:
  assumes "validOrder ord"
  shows "(\<forall>r p'. convertOperation ord fuel p path method op = Some (r, p') \<longrightarrow>
            (case r of
               Inl e \<Rightarrow> operationError e
             | Inr h \<Rightarrow>
                 if requestMediaTypes op = []
                 then RequestBody h = None \<and> ContentType h = ContentTypeJson
                 else RequestBody h \<noteq> None \<and>
                   (\<exists>ct\<in>set (requestMediaTypes op). ContentType h = classify ct))) \<and>
         (wellFormedOperation (registered p) fuel op \<longrightarrow>
            (\<exists>h p'. convertOperation ord fuel p path method op = Some (Inr h, p')))"
proof (intro conjI allI impI)
  assume "wellFormedOperation (registered p) fuel op"
  then show "\<exists>h p'. convertOperation ord fuel p path method op = Some (Inr h, p')"
    by (rule convertOperation_ok)
next
  fix r p'
  assume run: "convertOperation ord fuel p path method op = Some (r, p')"
  let ?h0 = "\<lparr>Name_handler = OperationID op, Description_handler = Description_op op,
              Path = path, Method = method, ContentType = ContentTypeJson,
              HeaderParams = [], PathParams = [], QueryParams = [],
              RequestBody = None, ResponseBody = None\<rparr>"
  let ?conv = "convertSchema ord fuel"
  let ?Q = "\<lambda>h. if requestMediaTypes op = []
                 then RequestBody h = None \<and> ContentType h = ContentTypeJson
                 else RequestBody h \<noteq> None \<and>
                   (\<exists>ct\<in>set (requestMediaTypes op). ContentType h = classify ct)"
  from run obtain r1 p1 where
    s1: "convertParameters ?conv p ?h0 (Parameters op) = Some (r1, p1)"
    by (cases "convertParameters ?conv p ?h0 (Parameters op)")
       (auto simp: convertOperation_def)
  note f1 = convertParameters_result [OF s1]
  show "case r of Inl e \<Rightarrow> operationError e | Inr h \<Rightarrow> ?Q h"
  proof (cases r1)
    case (Inl e)
    with run s1 have "r = Inl e" by (simp add: convertOperation_def)
    with f1 Inl show ?thesis by simp
  next
    case (Inr h1)
    with f1 have h1: "ContentType h1 = ContentTypeJson" "RequestBody h1 = None" by simp_all
    from run s1 Inr obtain r2 p2 where
      s2: "convertRequestBody ord ?conv p1 h1 op = Some (r2, p2)"
      by (cases "convertRequestBody ord ?conv p1 h1 op") (auto simp: convertOperation_def)
    note f2 = convertRequestBody_result [OF assms s2]
    show ?thesis
    proof (cases r2)
      case (Inl e)
      with run s1 s2 \<open>r1 = Inr h1\<close> have r: "r = Inl e" by (simp add: convertOperation_def)
      from f2 Inl have "operationError e" by (simp only: sum.case)
      with r show ?thesis by simp
    next
      case (Inr h2)
      note r2 = Inr
      have h2: "?Q h2"
      proof (cases "requestMediaTypes op = []")
        case True
        from f2 have "h2 = h1" unfolding r2 by (simp add: True)
        with h1 True show ?thesis by simp
      next
        case False
        from f2 obtain ct where b: "RequestBody h2 \<noteq> None"
          and m: "ct \<in> set (requestMediaTypes op)"
          and t: "ContentType h2 =
               (if ct = ''multipart/form-data'' then ContentTypeFile
                else if ct = ''application/json'' then ContentTypeJson
                else ContentType h1)"
          unfolding r2 by (simp only: sum.case False if_False) blast
        from t h1 have "ContentType h2 = classify ct" by (simp add: classify_def)
        with b m have "RequestBody h2 \<noteq> None \<and>
            (\<exists>ct\<in>set (requestMediaTypes op). ContentType h2 = classify ct)" by blast
        then show ?thesis by (simp only: False if_False simp_thms)
      qed
      from run s1 s2 \<open>r1 = Inr h1\<close> r2
      have s3: "convertResponseBody ord ?conv p2 h2 op = Some (r, p')"
        by (simp add: convertOperation_def)
      show ?thesis
      proof (cases "map_of (Responses op) ''200''")
        case None
        with s3 have r: "r = Inr h2" by (simp add: convertResponseBody_def)
        from h2 show ?thesis unfolding r by (simp only: sum.case)
      next
        case (Some response)
        note response = Some
        show ?thesis
        proof (cases "Value_response response")
          case None
          with s3 response have r: "r = Inl nilDeref" by (simp add: convertResponseBody_def)
          show ?thesis unfolding r by (simp only: sum.case operationError_intros)
        next
          case (Some content)
          with s3 response
          have "convertResponseContent ?conv (tick p2) h2 (rangeMap ord (ranges p2) content) =
              Some (r, p')"
            by (simp add: convertResponseBody_def)
          from convertResponseContent_result [OF this]
          have f3: "case r of Inl e \<Rightarrow> operationError e
            | Inr h \<Rightarrow> ContentType h = ContentType h2 \<and> RequestBody h = RequestBody h2" .
          show ?thesis
          proof (cases r)
            case (Inl e)
            with f3 show ?thesis by (simp only: sum.case)
          next
            case (Inr h)
            with f3 have e: "ContentType h = ContentType h2" "RequestBody h = RequestBody h2"
              by simp_all
            from h2 show ?thesis unfolding Inr sum.case e .
          qed
        qed
      qed
    qed
  qed
qed


subsection \<open>Example operations\<close>

definition mkOperation :: "string \<Rightarrow> (string \<times> MediaType) list \<Rightarrow> Operation" where
  "mkOperation n content = \<lparr>OperationID = n, Description_op = [], Tags = [], Parameters = [],
     RequestBody_op = Some \<lparr>Value_requestBody = Some content\<rparr>, Responses = []\<rparr>"

text \<open>A request body of media type \<open>text/plain\<close>, and one of \<open>multipart/form-data\<close>.\<close>

definition textOp :: Operation where
  "textOp = mkOperation ''CreateNote''
     [(''text/plain'', \<lparr>Schema_media = Some (mkSchema [''string''] [])\<rparr>)]"

definition uploadOp :: Operation where
  "uploadOp = mkOperation ''UploadFile''
     [(''multipart/form-data'', \<lparr>Schema_media = Some (mkSchema [''object''] [])\<rparr>)]"

definition emptyParser :: Parser where
  "emptyParser = mkParser [] [] emptyConfig []"

definition uploadHandler :: HttpHandler where
  "uploadHandler = \<lparr>Name_handler = ''UploadFile'', Description_handler = [],
     Path = ''/v1/files'', Method = ''POST'', ContentType = ContentTypeFile,
     HeaderParams = [], PathParams = [], QueryParams = [], RequestBody = Some 0,
     ResponseBody = None\<rparr>"

lemmas operation_defs =
  convertOperation_def convertParameters.simps convertRequestBody_def convertResponseBody_def
  convertRequestContent.simps convertResponseContent.simps convertSchemaBody_def
  convertNew_def convertObject_def convertProperty_def convertField_def
  convertUnordered.simps convertOrdered.simps registerTy_def setTy_def updTy_def newTy_def
  Choose_def enumValuesOf_def convertPrimitiveType_def rangeMap_def tick_def Let_def

lemmas operation_example_defs =
  mkOperation_def textOp_def uploadOp_def emptyParser_def mkParser_def emptyConfig_def
  mkSchema_def uploadHandler_def

theorem convertOperation_contentType_witness:
  "validOrder writtenOrder \<and>
   (\<exists>h p'. convertOperation writtenOrder 6 emptyParser ''/v1/files'' ''POST'' uploadOp =
              Some (Inr h, p') \<and>
            RequestBody h \<noteq> None \<and> ContentType h = ContentTypeFile)"
proof -
  note t = convertOperation_contentType
    [OF validOrder_writtenOrder, of 6 emptyParser "''/v1/files''" "''POST''" uploadOp]
  have wf: "wellFormedOperation (registered emptyParser) 6 uploadOp"
    by (simp add: wellFormedOperation_def goodParameter_def goodContent_def goodSchema_def
        uploadOp_def mkOperation_def mkSchema_def declaredOrderOK_def enumNamesOK_def)
  have m: "requestMediaTypes uploadOp = [''multipart/form-data'']"
    by (simp add: requestMediaTypes_def uploadOp_def mkOperation_def mkSchema_def)
  from t wf obtain h p' where
    run: "convertOperation writtenOrder 6 emptyParser ''/v1/files'' ''POST'' uploadOp =
            Some (Inr h, p')" by blast
  from t [THEN conjunct1, rule_format, OF run]
  have "RequestBody h \<noteq> None \<and> (\<exists>ct\<in>set (requestMediaTypes uploadOp). ContentType h = classify ct)"
    by (simp add: m)
  then have "RequestBody h \<noteq> None \<and> ContentType h = ContentTypeFile"
    by (simp add: m classify_def)
  with run validOrder_writtenOrder show ?thesis by blast
qed

text \<open>C3 as stated fails: a request body of media type \<open>text/plain\<close> is not a fatal
  error; \<open>convertOperation\<close> returns a handler, classified structured.\<close>

theorem convertOperation_text_plain_counterexample:
  "map_option fst (convertOperation writtenOrder 2 emptyParser ''/v1/notes'' ''POST'' textOp) =
     Some (Inr \<lparr>Name_handler = ''CreateNote'', Description_handler = [],
       Path = ''/v1/notes'', Method = ''POST'', ContentType = ContentTypeJson,
       HeaderParams = [], PathParams = [], QueryParams = [], RequestBody = Some 0,
       ResponseBody = None\<rparr>)"
  by (simp add: operation_defs operation_example_defs writtenOrder_def numeral_2_eq_2)




section \<open>Module assignment and topological sort\<close>

subsection \<open>The graph library\<close>

text \<open>
  The graph packages of gonum (\<open>graph/simple\<close>, \<open>graph/topo\<close>) are a library outside the
  repository. A directed graph is modelled by its node IDs and its edges, and the two
  operations that \<open>topologicalSortTypes\<close> calls follow the library's documentation:
  \<open>AddNode\<close> panics when the ID is already in the graph; \<open>SetEdge\<close> panics when both ends
  are the same node and adds the ends that are not in the graph yet.
\<close>

record DirectedGraph =
  Nodes :: "nat list"
  Edges :: "(nat \<times> nat) list"

definition NewDirectedGraph :: DirectedGraph where
  "NewDirectedGraph = \<lparr>Nodes = [], Edges = []\<rparr>"

definition AddNode :: "nat \<Rightarrow> DirectedGraph \<Rightarrow> err + DirectedGraph" where
  "AddNode n g =
     (if n \<in> set (Nodes g) then Inl (Panic ''simple: node ID collision'')
      else Inr (g\<lparr>Nodes := Nodes g @ [n]\<rparr>))"

definition SetEdge :: "nat \<times> nat \<Rightarrow> DirectedGraph \<Rightarrow> err + DirectedGraph" where
  "SetEdge e g =
     (if fst e = snd e then Inl (Panic ''simple: adding self edge'')
      else Inr (g\<lparr>Nodes := List.union [fst e, snd e] (Nodes g),
                  Edges := List.insert e (Edges g)\<rparr>))"

text \<open>
  \<open>topo.SortStabilized(g, order)\<close> is a parameter of the model, of type \<open>sorter\<close>: it takes
  the graph and the callback that orders a list of nodes, and returns the sortedIDs node IDs
  or an error. The library documents that a result without error lists every node of the
  graph once, each edge's source before its target; \<open>topoContract\<close> states this for the
  graphs that the operations above build, whose edges are between nodes of the graph.
\<close>

type_synonym sorter = "DirectedGraph \<Rightarrow> (nat list \<Rightarrow> nat list) \<Rightarrow> err + nat list"

definition before :: "'a list \<Rightarrow> 'a \<Rightarrow> 'a \<Rightarrow> bool" where
  "before xs u v \<longleftrightarrow> (\<exists>as bs cs. xs = as @ u # bs @ v # cs)"

definition wfGraph :: "DirectedGraph \<Rightarrow> bool" where
  "wfGraph g \<longleftrightarrow> (\<forall>(u, v)\<in>set (Edges g). u \<in> set (Nodes g) \<and> v \<in> set (Nodes g))"

definition topoContract :: "sorter \<Rightarrow> bool" where
  "topoContract topoSort \<longleftrightarrow>
     (\<forall>g order sortedIDs.
        wfGraph g \<and> topoSort g order = Inr sortedIDs \<longrightarrow>
        distinct sortedIDs \<and> set sortedIDs = set (Nodes g) \<and>
        (\<forall>(u, v)\<in>set (Edges g). before sortedIDs u v))"

subsection \<open>topologicalSortTypes\<close>

text \<open>The maps and the counter that \<open>topologicalSortTypes\<close> keeps beside the graph.\<close>

record GraphState =
  graph :: DirectedGraph
  typeToID :: "ptr \<rightharpoonup> nat"
  idToType :: "nat \<rightharpoonup> ptr"
  nextID :: nat

definition initialGraphState :: GraphState where
  "initialGraphState =
     \<lparr>graph = NewDirectedGraph, typeToID = Map.empty, idToType = Map.empty, nextID = 1\<rparr>"

text \<open>\<open>if xID, ok := typeToID[x]; ok { g.SetEdge(simple.Edge{F: xID, T: id}) }\<close>\<close>

definition edgeFrom :: "ptr \<Rightarrow> nat \<Rightarrow> GraphState \<Rightarrow> err + GraphState" where
  "edgeFrom x nodeID st =
     (case typeToID st x of
        None \<Rightarrow> Inr st
      | Some xID \<Rightarrow>
          (case SetEdge (xID, nodeID) (graph st) of
             Inl e \<Rightarrow> Inl e
           | Inr g \<Rightarrow> Inr (st\<lparr>graph := g\<rparr>)))"

text \<open>
  \<open>addTypeToGraph\<close> is recursive through the type graph and stops at types that have an ID
  already. The model carries fuel, one unit for each nested call; \<open>None\<close> means that the
  fuel ran out. In \<open>addField\<close>, \<open>addFields\<close>, \<open>addElement\<close> and \<open>addTypeBody\<close>, \<open>self\<close> stands
  for the recursive call.
\<close>

type_synonym adder = "ptr option \<Rightarrow> GraphState \<Rightarrow> (err + GraphState) option"

text \<open>\<open>addTypeToGraph(x)\<close> followed by the edge from \<open>x\<close> to the node \<open>nodeID\<close>.\<close>

definition addElement :: "adder \<Rightarrow> ptr \<Rightarrow> nat \<Rightarrow> GraphState \<Rightarrow> (err + GraphState) option" where
  "addElement self x nodeID st =
     (case self (Some x) st of
        None \<Rightarrow> None
      | Some (Inl e) \<Rightarrow> Some (Inl e)
      | Some (Inr st1) \<Rightarrow> Some (edgeFrom x nodeID st1))"

text \<open>The body of the loop over the fields of an object.\<close>

definition addField ::
  "adder \<Rightarrow> Ty list \<Rightarrow> nat \<Rightarrow> TyField \<Rightarrow> GraphState \<Rightarrow> (err + GraphState) option" where
  "addField self heap nodeID field st =
     (case self (Type_field field) st of
        None \<Rightarrow> None
      | Some (Inl e) \<Rightarrow> Some (Inl e)
      | Some (Inr st1) \<Rightarrow>
          (case Type_field field of
             None \<Rightarrow> Some (Inr st1)
           | Some fieldType \<Rightarrow>
               (case edgeFrom fieldType nodeID st1 of
                  Inl e \<Rightarrow> Some (Inl e)
                | Inr st2 \<Rightarrow>
                    (case deref heap (Some fieldType) of
                       Inl e \<Rightarrow> Some (Inl e)
                     | Inr fieldTy \<Rightarrow>
                         (case ElementType fieldTy of
                            None \<Rightarrow> Some (Inr st2)
                          | Some elem \<Rightarrow> addElement self elem nodeID st2)))))"

fun addFields ::
  "adder \<Rightarrow> Ty list \<Rightarrow> nat \<Rightarrow> TyField list \<Rightarrow> GraphState \<Rightarrow> (err + GraphState) option" where
  "addFields self heap nodeID [] st = Some (Inr st)"
| "addFields self heap nodeID (field # rest) st =
     (case addField self heap nodeID field st of
        Some (Inr st1) \<Rightarrow> addFields self heap nodeID rest st1
      | stop \<Rightarrow> stop)"

definition addTypeBody :: "adder \<Rightarrow> Ty list \<Rightarrow> adder" where
  "addTypeBody self heap ty st =
     (case ty of
        None \<Rightarrow> Some (Inr st)
      | Some t \<Rightarrow>
          if typeToID st t \<noteq> None then Some (Inr st)
          else
            (case AddNode (nextID st) (graph st) of
               Inl e \<Rightarrow> Some (Inl e)
             | Inr g \<Rightarrow>
                 let nodeID = nextID st;
                     st1 = st\<lparr>graph := g, typeToID := (typeToID st)(t \<mapsto> nodeID),
                              idToType := (idToType st)(nodeID \<mapsto> t), nextID := nodeID + 1\<rparr>
                 in case deref heap (Some t) of
                      Inl e \<Rightarrow> Some (Inl e)
                    | Inr tv \<Rightarrow>
                        if Kind tv = TyKindObject then addFields self heap nodeID (Fields tv) st1
                        else if Kind tv = TyKindArray then
                          (case ElementType tv of
                             None \<Rightarrow> Some (Inr st1)
                           | Some elem \<Rightarrow> addElement self elem nodeID st1)
                        else Some (Inr st1)))"

fun addTypeToGraph :: "Ty list \<Rightarrow> nat \<Rightarrow> adder" where
  "addTypeToGraph heap 0 = (\<lambda>ty st. None)"
| "addTypeToGraph heap (Suc n) = addTypeBody (addTypeToGraph heap n) heap"

text \<open>The loop over the entry types.\<close>

fun addEntries :: "adder \<Rightarrow> ptr list \<Rightarrow> GraphState \<Rightarrow> (err + GraphState) option" where
  "addEntries add [] st = Some (Inr st)"
| "addEntries add (ty # rest) st =
     (case add (Some ty) st of
        Some (Inr st1) \<Rightarrow> addEntries add rest st1
      | stop \<Rightarrow> stop)"

text \<open>The callback given to the sort: \<open>sort.Slice\<close> by the name of each node's type.\<close>

definition nodeName :: "Ty list \<Rightarrow> GraphState \<Rightarrow> nat \<Rightarrow> string" where
  "nodeName heap st n =
     (case idToType st n of
        None \<Rightarrow> []
      | Some t \<Rightarrow> if t < length heap then Name (heap ! t) else [])"

definition orderByName :: "Ty list \<Rightarrow> GraphState \<Rightarrow> nat list \<Rightarrow> nat list" where
  "orderByName heap st ns = sort_key (nodeName heap st) ns"

definition topologicalSortTypes ::
  "sorter \<Rightarrow> nat \<Rightarrow> Ty list \<Rightarrow> ptr list \<Rightarrow> (err + ptr option list) option" where
  "topologicalSortTypes topoSort fuel heap entryTypes =
     (if length entryTypes = 0 then Some (Inr [])
      else
        (case addEntries (addTypeToGraph heap fuel) entryTypes initialGraphState of
           None \<Rightarrow> None
         | Some (Inl e) \<Rightarrow> Some (Inl e)
         | Some (Inr st) \<Rightarrow>
             (case topoSort (graph st) (orderByName heap st) of
                Inl e \<Rightarrow> Some (Inl (wrapErr ''cycle detected in type dependencies: '' e))
              | Inr sortedIDs \<Rightarrow> Some (Inr (map (idToType st) sortedIDs)))))"

subsection \<open>collectHandlerTypes, isTypeUsedInModule\<close>

text \<open>\<open>deps\<close> is the set of collected types, kept as a list; \<open>self\<close> is the recursive
  call of \<open>collectFromType\<close>, which carries fuel as \<open>addTypeToGraph\<close> does.\<close>

type_synonym collector = "ptr option \<Rightarrow> ptr list \<Rightarrow> (err + ptr list) option"

fun collectAll :: "collector \<Rightarrow> ptr option list \<Rightarrow> ptr list \<Rightarrow> (err + ptr list) option" where
  "collectAll collect [] deps = Some (Inr deps)"
| "collectAll collect (t # rest) deps =
     (case collect t deps of
        Some (Inr deps1) \<Rightarrow> collectAll collect rest deps1
      | stop \<Rightarrow> stop)"

definition collectBody :: "collector \<Rightarrow> Ty list \<Rightarrow> collector" where
  "collectBody self heap t deps =
     (case t of
        None \<Rightarrow> Some (Inr deps)
      | Some a \<Rightarrow>
          if a \<in> set deps then Some (Inr deps)
          else
            (case deref heap (Some a) of
               Inl e \<Rightarrow> Some (Inl e)
             | Inr tv \<Rightarrow>
                 if Kind tv = TyKindObject
                 then collectAll self (map Type_field (Fields tv)) (deps @ [a])
                 else if Kind tv = TyKindArray then self (ElementType tv) (deps @ [a])
                 else Some (Inr (deps @ [a]))))"

fun collectFromType :: "Ty list \<Rightarrow> nat \<Rightarrow> collector" where
  "collectFromType heap 0 = (\<lambda>t deps. None)"
| "collectFromType heap (Suc n) = collectBody (collectFromType heap n) heap"

definition collectHandlerTypes :: "nat \<Rightarrow> Ty list \<Rightarrow> HttpHandler \<Rightarrow> (err + ptr list) option" where
  "collectHandlerTypes fuel heap handler =
     collectAll (collectFromType heap fuel)
       ([RequestBody handler, ResponseBody handler] @
        map Type_field (HeaderParams handler) @
        map Type_field (PathParams handler) @
        map Type_field (QueryParams handler))
       []"

text \<open>\<open>handlerDeps\<close> has a handler's address as its key: the grouping's name and the
  handler's index in \<open>module.HttpHandlers\<close>.\<close>

type_synonym handlerDeps = "((string \<times> nat) \<times> ptr list) list"

fun depsOfHandlers ::
  "nat \<Rightarrow> Ty list \<Rightarrow> string \<Rightarrow> nat \<Rightarrow> HttpHandler list \<Rightarrow> handlerDeps \<Rightarrow> (err + handlerDeps) option" where
  "depsOfHandlers fuel heap moduleName i [] acc = Some (Inr acc)"
| "depsOfHandlers fuel heap moduleName i (handler # rest) acc =
     (case collectHandlerTypes fuel heap handler of
        None \<Rightarrow> None
      | Some (Inl e) \<Rightarrow> Some (Inl e)
      | Some (Inr deps) \<Rightarrow>
          depsOfHandlers fuel heap moduleName (Suc i) rest
            (AList.update (moduleName, i) deps acc))"

fun depsOfModules ::
  "nat \<Rightarrow> Ty list \<Rightarrow> (string \<times> Module) list \<Rightarrow> handlerDeps \<Rightarrow> (err + handlerDeps) option" where
  "depsOfModules fuel heap [] acc = Some (Inr acc)"
| "depsOfModules fuel heap ((moduleName, module) # rest) acc =
     (case depsOfHandlers fuel heap moduleName 0 (HttpHandlers module) acc of
        Some (Inr acc1) \<Rightarrow> depsOfModules fuel heap rest acc1
      | stop \<Rightarrow> stop)"

definition isTypeUsedInModule :: "ptr \<Rightarrow> string \<Rightarrow> Module \<Rightarrow> handlerDeps \<Rightarrow> bool" where
  "isTypeUsedInModule ty moduleName module deps =
     list_ex (\<lambda>i. case map_of deps (moduleName, i) of None \<Rightarrow> False | Some d \<Rightarrow> ty \<in> set d)
       [0..<length (HttpHandlers module)]"


subsection \<open>assignTypesToModules\<close>

text \<open>The first loop: the types that the configuration assigns. The type's \<open>Module\<close> is
  set even when no grouping of that name exists.\<close>

fun assignConfigured :: "Parser \<Rightarrow> (string \<times> string) list \<Rightarrow> Parser" where
  "assignConfigured p [] = p"
| "assignConfigured p ((typeName, moduleName) # rest) =
     (case map_of (namedTypes p) typeName of
        None \<Rightarrow> assignConfigured p rest
      | Some ty \<Rightarrow>
          let p1 = p\<lparr>store := updTy (store p) ty (\<lambda>t. t\<lparr>Module := moduleName\<rparr>)\<rparr>
          in case map_of (modules p1) moduleName of
               None \<Rightarrow> assignConfigured p1 rest
             | Some module \<Rightarrow>
                 assignConfigured
                   (p1\<lparr>modules :=
                        AList.update moduleName (module\<lparr>Types := Types module @ [ty]\<rparr>) (modules p1)\<rparr>)
                   rest)"

text \<open>The inner loop of the second part: the first grouping visited that uses the type
  gets it.\<close>

fun assignToFirstUser :: "handlerDeps \<Rightarrow> ptr \<Rightarrow> Parser \<Rightarrow> string list \<Rightarrow> Parser" where
  "assignToFirstUser deps ty p [] = p"
| "assignToFirstUser deps ty p (moduleName # rest) =
     (case map_of (modules p) moduleName of
        None \<Rightarrow> assignToFirstUser deps ty p rest
      | Some module \<Rightarrow>
          if isTypeUsedInModule ty moduleName module deps
          then p\<lparr>store := updTy (store p) ty (\<lambda>t. t\<lparr>Module := Name_module module\<rparr>),
                 modules :=
                   AList.update moduleName (module\<lparr>Types := Types module @ [ty]\<rparr>) (modules p)\<rparr>
          else assignToFirstUser deps ty p rest)"

text \<open>The second part: the loop over the registry; \<open>ty.Module\<close> dereferences the type.\<close>

fun assignByUsage ::
  "order \<Rightarrow> handlerDeps \<Rightarrow> Parser \<Rightarrow> (string \<times> ptr) list \<Rightarrow> err option \<times> Parser" where
  "assignByUsage ord deps p [] = (None, p)"
| "assignByUsage ord deps p ((name, ty) # rest) =
     (case deref (store p) (Some ty) of
        Inl e \<Rightarrow> (Some e, p)
      | Inr tv \<Rightarrow>
          if Module tv \<noteq> [] then assignByUsage ord deps p rest
          else
            assignByUsage ord deps
              (assignToFirstUser deps ty (tick p)
                 (map fst (rangeMap ord (ranges p) (modules p))))
              rest)"

text \<open>The entry types of a grouping: the request and response bodies of its handlers
  that are not \<open>nil\<close>.\<close>

definition entryTypesOf :: "HttpHandler list \<Rightarrow> ptr list" where
  "entryTypesOf handlers =
     concat (map (\<lambda>h. (case RequestBody h of None \<Rightarrow> [] | Some a \<Rightarrow> [a]) @
                       (case ResponseBody h of None \<Rightarrow> [] | Some a \<Rightarrow> [a])) handlers)"

text \<open>\<open>slices.DeleteFunc\<close> of the types that are not named; \<open>ty.IsNamed\<close> dereferences
  the type.\<close>

fun deleteUnnamed :: "Ty list \<Rightarrow> ptr option list \<Rightarrow> err + ptr list" where
  "deleteUnnamed heap [] = Inr []"
| "deleteUnnamed heap (None # rest) = Inl nilDeref"
| "deleteUnnamed heap (Some ty # rest) =
     (case deref heap (Some ty) of
        Inl e \<Rightarrow> Inl e
      | Inr tv \<Rightarrow>
          (case deleteUnnamed heap rest of
             Inl e \<Rightarrow> Inl e
           | Inr named \<Rightarrow> Inr (if IsNamed tv then ty # named else named)))"

text \<open>
  The body of the last loop, for one grouping. \<open>fmtP\<close> is \<open>fmt.Sprintf("%p", _)\<close>, the
  printed machine address of a type, which the runtime chooses; the stable sort by it and
  \<open>slices.Compact\<close> leave each entry type once when equal pointers print equally.
\<close>

definition sortModuleTypes ::
  "sorter \<Rightarrow> (ptr \<Rightarrow> string) \<Rightarrow> nat \<Rightarrow> Ty list \<Rightarrow> Module \<Rightarrow> (err + Module) option" where
  "sortModuleTypes topoSort fmtP fuel heap module =
     (if length (Types module) = 0 then Some (Inr module)
      else
        (case topologicalSortTypes topoSort fuel heap
                (remdups_adj (sort_key fmtP (entryTypesOf (HttpHandlers module)))) of
           None \<Rightarrow> None
         | Some (Inl e) \<Rightarrow>
             Some (Inl (wrapErr (''cycle detected in type dependencies for module '' @
                                 Name_module module @ '': '') e))
         | Some (Inr sortedTypes) \<Rightarrow>
             (case deleteUnnamed heap sortedTypes of
                Inl e \<Rightarrow> Some (Inl e)
              | Inr named \<Rightarrow> Some (Inr (module\<lparr>Types := named\<rparr>)))))"

text \<open>The last loop: every grouping's type list is replaced by its sorted named types.\<close>

fun sortModules ::
  "sorter \<Rightarrow> (ptr \<Rightarrow> string) \<Rightarrow> nat \<Rightarrow> Parser \<Rightarrow> string list \<Rightarrow> (err option \<times> Parser) option" where
  "sortModules topoSort fmtP fuel p [] = Some (None, p)"
| "sortModules topoSort fmtP fuel p (moduleName # rest) =
     (case map_of (modules p) moduleName of
        None \<Rightarrow> sortModules topoSort fmtP fuel p rest
      | Some module \<Rightarrow>
          (case sortModuleTypes topoSort fmtP fuel (store p) module of
             None \<Rightarrow> None
           | Some (Inl e) \<Rightarrow> Some (Some e, p)
           | Some (Inr module1) \<Rightarrow>
               sortModules topoSort fmtP fuel
                 (p\<lparr>modules := AList.update moduleName module1 (modules p)\<rparr>) rest))"

definition assignTypesToModules ::
  "sorter \<Rightarrow> order \<Rightarrow> (ptr \<Rightarrow> string) \<Rightarrow> nat \<Rightarrow> Parser \<Rightarrow> (err option \<times> Parser) option" where
  "assignTypesToModules topoSort ord fmtP fuel p =
     (let p1 = assignConfigured (tick p) (rangeMap ord (ranges p) (TypeModuleMap (config p)))
      in case depsOfModules fuel (store p1) (rangeMap ord (ranges p1) (modules p1)) [] of
           None \<Rightarrow> None
         | Some (Inl e) \<Rightarrow> Some (Some e, tick p1)
         | Some (Inr deps) \<Rightarrow>
             let p2 = tick p1
             in case assignByUsage ord deps (tick p2) (rangeMap ord (ranges p2) (namedTypes p2)) of
                  (Some e, p3) \<Rightarrow> Some (Some e, p3)
                | (None, p3) \<Rightarrow>
                    sortModules topoSort fmtP fuel (tick p3)
                      (map fst (rangeMap ord (ranges p3) (modules p3))))"


subsection \<open>A sort that meets the library contract\<close>

text \<open>
  A reference sort, used where a theorem is applied to a concrete input: it emits, one at
  a time, a node all of whose predecessors are emitted, the first such node in the
  callback's order, and fails when nodes are left and none can be emitted. It is not the
  algorithm of the library: it is one sort that meets the contract above, and neither its
  order among unrelated nodes nor the text of its error is the library's.
\<close>

definition ready :: "DirectedGraph \<Rightarrow> nat list \<Rightarrow> nat \<Rightarrow> bool" where
  "ready g emitted v \<longleftrightarrow> (\<forall>(u, w)\<in>set (Edges g). w = v \<longrightarrow> u \<in> set emitted)"

fun emitReady ::
  "nat \<Rightarrow> DirectedGraph \<Rightarrow> (nat list \<Rightarrow> nat list) \<Rightarrow> nat list \<Rightarrow> nat list \<Rightarrow> err + nat list" where
  "emitReady 0 g order remaining emitted =
     (if remaining = [] then Inr emitted else Inl (Err ''topo: no topological ordering''))"
| "emitReady (Suc n) g order remaining emitted =
     (if remaining = [] then Inr emitted
      else
        (case filter (\<lambda>v. v \<in> set remaining \<and> ready g emitted v)
                (order (filter (ready g emitted) remaining)) of
           [] \<Rightarrow> Inl (Err ''topo: no topological ordering'')
         | v # _ \<Rightarrow> emitReady n g order (removeAll v remaining) (emitted @ [v])))"

definition referenceSort :: sorter where
  "referenceSort g order = emitReady (length (Nodes g)) g order (remdups (Nodes g)) []"

lemma before_append: "before xs u v \<Longrightarrow> before (xs @ ys) u v"
  unfolding before_def by (metis append.assoc append_Cons)

lemma before_snoc: "u \<in> set xs \<Longrightarrow> before (xs @ [v]) u v"
  unfolding before_def by (metis append.assoc append_Cons append_Nil split_list)

lemma emitReady_sorted:
  "emitReady n g order remaining emitted = Inr sortedIDs \<Longrightarrow> distinct emitted \<Longrightarrow>
   set emitted \<inter> set remaining = {} \<Longrightarrow>
   (\<forall>(u, v)\<in>set (Edges g). v \<in> set emitted \<longrightarrow> before emitted u v) \<Longrightarrow>
   distinct sortedIDs \<and> set sortedIDs = set emitted \<union> set remaining \<and>
   (\<forall>(u, v)\<in>set (Edges g). v \<in> set sortedIDs \<longrightarrow> before sortedIDs u v)"
proof (induction n arbitrary: remaining emitted)
  case 0
  then show ?case by (auto split: if_splits)
next
  case (Suc n)
  show ?case
  proof (cases "remaining = []")
    case True
    with Suc.prems show ?thesis by auto
  next
    case False
    let ?cands = "filter (\<lambda>v. v \<in> set remaining \<and> ready g emitted v)
                (order (filter (ready g emitted) remaining))"
    from Suc.prems(1) False obtain v rest where c: "?cands = v # rest"
      by (cases ?cands) auto
    then have "v \<in> set ?cands" by simp
    then have v: "v \<in> set remaining" "ready g emitted v" by auto
    from Suc.prems(1) False c
    have run: "emitReady n g order (removeAll v remaining) (emitted @ [v]) = Inr sortedIDs"
      by simp
    from v(1) Suc.prems(3) have nv: "v \<notin> set emitted" by auto
    with Suc.prems(2) have d: "distinct (emitted @ [v])" by simp
    from Suc.prems(3) have dj: "set (emitted @ [v]) \<inter> set (removeAll v remaining) = {}"
      by auto
    have e: "\<forall>(u, w)\<in>set (Edges g). w \<in> set (emitted @ [v]) \<longrightarrow> before (emitted @ [v]) u w"
    proof (clarify)
      fix u w
      assume uw: "(u, w) \<in> set (Edges g)" and w: "w \<in> set (emitted @ [v])"
      show "before (emitted @ [v]) u w"
      proof (cases "w \<in> set emitted")
        case True
        with Suc.prems(4) uw have "before emitted u w" by auto
        then show ?thesis by (rule before_append)
      next
        case False
        with w have "w = v" by simp
        with v(2) uw have "u \<in> set emitted" by (auto simp: ready_def)
        with \<open>w = v\<close> show ?thesis by (simp add: before_snoc)
      qed
    qed
    from Suc.IH [OF run d dj e] v(1) show ?thesis by auto
  qed
qed

lemma topoContract_referenceSort: "topoContract referenceSort"
  unfolding topoContract_def
proof (intro allI impI)
  fix g :: DirectedGraph and order sortedIDs
  assume a: "wfGraph g \<and> referenceSort g order = Inr sortedIDs"
  then have "emitReady (length (Nodes g)) g order (remdups (Nodes g)) [] = Inr sortedIDs"
    by (simp add: referenceSort_def)
  from emitReady_sorted [OF this]
  have r: "distinct sortedIDs" "set sortedIDs = set (Nodes g)"
    "\<forall>(u, v)\<in>set (Edges g). v \<in> set sortedIDs \<longrightarrow> before sortedIDs u v"
    by auto
  from a r(2,3) have "\<forall>(u, v)\<in>set (Edges g). before sortedIDs u v"
    by (auto simp: wfGraph_def)
  with r show "distinct sortedIDs \<and> set sortedIDs = set (Nodes g) \<and>
    (\<forall>(u, v)\<in>set (Edges g). before sortedIDs u v)" by simp
qed




subsection \<open>What addTypeToGraph builds\<close>

text \<open>The maps are inverse to each other, the nodes of the graph are the IDs given out,
  all below \<open>nextID\<close>, and edges are between nodes.\<close>

definition stateInv :: "GraphState \<Rightarrow> bool" where
  "stateInv st \<longleftrightarrow>
     (\<forall>t i. typeToID st t = Some i \<longleftrightarrow> idToType st i = Some t) \<and>
     (\<forall>i. idToType st i \<noteq> None \<longleftrightarrow> i \<in> set (Nodes (graph st))) \<and>
     (\<forall>i\<in>set (Nodes (graph st)). i < nextID st) \<and>
     wfGraph (graph st)"

definition grows :: "GraphState \<Rightarrow> GraphState \<Rightarrow> bool" where
  "grows st st' \<longleftrightarrow>
     typeToID st \<subseteq>\<^sub>m typeToID st' \<and> set (Edges (graph st)) \<subseteq> set (Edges (graph st'))"

text \<open>The type \<open>x\<close> has a node, with an edge to the node \<open>i\<close>.\<close>

definition linked :: "GraphState \<Rightarrow> ptr \<Rightarrow> nat \<Rightarrow> bool" where
  "linked st x i \<longleftrightarrow> (\<exists>j. typeToID st x = Some j \<and> (j, i) \<in> set (Edges (graph st)))"

text \<open>The type \<open>t\<close> has a node, and so has each type of its fs (for an object) and its
  element type (for an array), with an edge to the node of \<open>t\<close>.\<close>

definition closedAt :: "Ty list \<Rightarrow> GraphState \<Rightarrow> ptr \<Rightarrow> bool" where
  "closedAt heap st t \<longleftrightarrow>
     (\<exists>i. typeToID st t = Some i \<and> t < length heap \<and>
        (Kind (heap ! t) = TyKindObject \<longrightarrow>
           (\<forall>f\<in>set (Fields (heap ! t)). \<forall>ft. Type_field f = Some ft \<longrightarrow> linked st ft i)) \<and>
        (Kind (heap ! t) = TyKindArray \<longrightarrow>
           (\<forall>e. ElementType (heap ! t) = Some e \<longrightarrow> linked st e i)))"

definition closedExcept :: "Ty list \<Rightarrow> ptr set \<Rightarrow> GraphState \<Rightarrow> bool" where
  "closedExcept heap S st \<longleftrightarrow> (\<forall>t. typeToID st t \<noteq> None \<and> t \<notin> S \<longrightarrow> closedAt heap st t)"

definition adderSpec :: "Ty list \<Rightarrow> adder \<Rightarrow> bool" where
  "adderSpec heap self \<longleftrightarrow>
     (\<forall>ty st st' S.
        self ty st = Some (Inr st') \<and> stateInv st \<and> closedExcept heap S st \<longrightarrow>
        stateInv st' \<and> grows st st' \<and> closedExcept heap S st' \<and>
        (\<forall>t. ty = Some t \<longrightarrow> typeToID st' t \<noteq> None))"

lemma grows_refl: "grows st st"
  by (simp add: grows_def)

lemma grows_trans: "grows a b \<Longrightarrow> grows b c \<Longrightarrow> grows a c"
  by (auto simp: grows_def intro: map_le_trans)

lemma grows_typeToID: "grows st st' \<Longrightarrow> typeToID st t = Some i \<Longrightarrow> typeToID st' t = Some i"
  by (force simp: grows_def map_le_def)

lemma linked_grows:
  assumes "grows st st'" and "linked st x i"
  shows "linked st' x i"
proof -
  from assms(2) obtain j where j: "typeToID st x = Some j" "(j, i) \<in> set (Edges (graph st))"
    by (auto simp: linked_def)
  from assms(1) j(1) have "typeToID st' x = Some j" by (rule grows_typeToID)
  moreover from assms(1) j(2) have "(j, i) \<in> set (Edges (graph st'))"
    by (auto simp: grows_def)
  ultimately show ?thesis by (auto simp: linked_def)
qed

lemma closedAt_grows:
  assumes "grows st st'" and "closedAt heap st t"
  shows "closedAt heap st' t"
proof -
  from assms(2) obtain i where i: "typeToID st t = Some i" "t < length heap"
    "Kind (heap ! t) = TyKindObject \<longrightarrow>
       (\<forall>f\<in>set (Fields (heap ! t)). \<forall>ft. Type_field f = Some ft \<longrightarrow> linked st ft i)"
    "Kind (heap ! t) = TyKindArray \<longrightarrow>
       (\<forall>e. ElementType (heap ! t) = Some e \<longrightarrow> linked st e i)"
    unfolding closedAt_def by blast
  from assms(1) i(1) have "typeToID st' t = Some i" by (rule grows_typeToID)
  moreover from i(3) have "Kind (heap ! t) = TyKindObject \<longrightarrow>
       (\<forall>f\<in>set (Fields (heap ! t)). \<forall>ft. Type_field f = Some ft \<longrightarrow> linked st' ft i)"
    using linked_grows [OF assms(1)] by blast
  moreover from i(4) have "Kind (heap ! t) = TyKindArray \<longrightarrow>
       (\<forall>e. ElementType (heap ! t) = Some e \<longrightarrow> linked st' e i)"
    using linked_grows [OF assms(1)] by blast
  ultimately show ?thesis using i(2) unfolding closedAt_def by blast
qed

lemma stateInv_node: "stateInv st \<Longrightarrow> typeToID st t = Some i \<Longrightarrow> i \<in> set (Nodes (graph st))"
  by (auto simp: stateInv_def)

lemma edgeFrom_result:
  assumes "edgeFrom x i st = Inr st'" and "stateInv st" and "typeToID st x = Some j"
    and "i \<in> set (Nodes (graph st))"
  shows "stateInv st' \<and> grows st st' \<and> linked st' x i \<and> typeToID st' = typeToID st \<and>
         set (Nodes (graph st')) = set (Nodes (graph st))"
proof -
  from assms(2,3) have j: "j \<in> set (Nodes (graph st))" by (rule stateInv_node)
  from assms(1,3) have ne: "j \<noteq> i"
    and st': "st' = st\<lparr>graph := (graph st)\<lparr>Nodes := List.union [j, i] (Nodes (graph st)),
                                          Edges := List.insert (j, i) (Edges (graph st))\<rparr>\<rparr>"
    by (auto simp: edgeFrom_def SetEdge_def split: if_splits)
  from j assms(4) have n: "set (Nodes (graph st')) = set (Nodes (graph st))"
    by (auto simp: st')
  have e: "set (Edges (graph st')) = insert (j, i) (set (Edges (graph st)))"
    by (simp add: st')
  have m: "typeToID st' = typeToID st" "idToType st' = idToType st" "nextID st' = nextID st"
    by (simp_all add: st')
  from assms(2) j assms(4) have "stateInv st'"
    unfolding stateInv_def wfGraph_def n e m by auto
  moreover have "grows st st'" unfolding grows_def m e by auto
  moreover from assms(3) have "linked st' x i" unfolding linked_def m e by auto
  ultimately show ?thesis using m n by simp
qed

lemma closedExcept_grows_same:
  "closedExcept heap S st \<Longrightarrow> grows st st' \<Longrightarrow> typeToID st' = typeToID st \<Longrightarrow>
   closedExcept heap S st'"
  unfolding closedExcept_def using closedAt_grows by metis

lemma addElement_result:
  assumes "adderSpec heap self" and "addElement self x i st = Some (Inr st')"
    and "stateInv st" and "closedExcept heap S st" and "typeToID st owner = Some i"
  shows "stateInv st' \<and> grows st st' \<and> closedExcept heap S st' \<and> linked st' x i"
proof -
  from assms(2) obtain st1 where s1: "self (Some x) st = Some (Inr st1)"
    and e: "edgeFrom x i st1 = Inr st'"
    by (auto simp: addElement_def split: option.splits sum.splits)
  from assms(1) s1 assms(3,4)
  have r1: "stateInv st1" "grows st st1" "closedExcept heap S st1" "typeToID st1 x \<noteq> None"
    unfolding adderSpec_def by blast+
  then obtain j where j: "typeToID st1 x = Some j" by auto
  from r1(2) assms(5) have "typeToID st1 owner = Some i" by (rule grows_typeToID)
  with r1(1) have i: "i \<in> set (Nodes (graph st1))" by (rule stateInv_node)
  from edgeFrom_result [OF e r1(1) j i]
  have r2: "stateInv st'" "grows st1 st'" "linked st' x i" "typeToID st' = typeToID st1"
    by simp_all
  from r1(3) r2(2,4) have "closedExcept heap S st'" by (rule closedExcept_grows_same)
  with r2 r1(2) show ?thesis using grows_trans by blast
qed

lemma addField_result:
  assumes "adderSpec heap self" and "addField self heap i field st = Some (Inr st')"
    and "stateInv st" and "closedExcept heap S st" and "typeToID st owner = Some i"
  shows "stateInv st' \<and> grows st st' \<and> closedExcept heap S st' \<and>
         (\<forall>ft. Type_field field = Some ft \<longrightarrow> linked st' ft i)"
proof -
  from assms(2) obtain st1 where s1: "self (Type_field field) st = Some (Inr st1)"
    by (auto simp: addField_def split: option.splits sum.splits)
  from assms(1) s1 assms(3,4)
  have r1: "stateInv st1" "grows st st1" "closedExcept heap S st1"
    "\<forall>t. Type_field field = Some t \<longrightarrow> typeToID st1 t \<noteq> None"
    unfolding adderSpec_def by blast+
  show ?thesis
  proof (cases "Type_field field")
    case None
    with assms(2) s1 have "st' = st1" by (simp add: addField_def)
    with r1 None show ?thesis by simp
  next
    case (Some ft)
    with r1(4) obtain j where j: "typeToID st1 ft = Some j" by auto
    from assms(2) s1 Some obtain st2 where e: "edgeFrom ft i st1 = Inr st2"
      by (auto simp: addField_def split: sum.splits)
    from r1(2) assms(5) have o1: "typeToID st1 owner = Some i" by (rule grows_typeToID)
    with r1(1) have i: "i \<in> set (Nodes (graph st1))" by (rule stateInv_node)
    from edgeFrom_result [OF e r1(1) j i]
    have r2: "stateInv st2" "grows st1 st2" "linked st2 ft i" "typeToID st2 = typeToID st1"
      by simp_all
    from r1(3) r2(2,4) have c2: "closedExcept heap S st2" by (rule closedExcept_grows_same)
    from r1(2) r2(2) have g2: "grows st st2" by (rule grows_trans)
    from assms(2) s1 Some e obtain fieldTy where d: "deref heap (Some ft) = Inr fieldTy"
      by (auto simp: addField_def split: sum.splits)
    show ?thesis
    proof (cases "ElementType fieldTy")
      case None
      with assms(2) s1 Some e d have "st' = st2" by (simp add: addField_def)
      with r2 c2 g2 Some show ?thesis by simp
    next
      case (Some elem)
      with assms(2) s1 \<open>Type_field field = Some ft\<close> e d
      have a: "addElement self elem i st2 = Some (Inr st')" by (simp add: addField_def)
      from o1 r2(4) have o2: "typeToID st2 owner = Some i" by simp
      from addElement_result [OF assms(1) a r2(1) c2 o2]
      have r3: "stateInv st'" "grows st2 st'" "closedExcept heap S st'" by simp_all
      from r2(3) r3(2) have "linked st' ft i" using linked_grows by blast
      with r3 g2 \<open>Type_field field = Some ft\<close> show ?thesis using grows_trans by auto
    qed
  qed
qed

lemma addFields_result:
  assumes "adderSpec heap self"
  shows "addFields self heap i fs st = Some (Inr st') \<Longrightarrow> stateInv st \<Longrightarrow>
         closedExcept heap S st \<Longrightarrow> typeToID st owner = Some i \<Longrightarrow>
         stateInv st' \<and> grows st st' \<and> closedExcept heap S st' \<and>
         (\<forall>f\<in>set fs. \<forall>ft. Type_field f = Some ft \<longrightarrow> linked st' ft i)"
proof (induction fs arbitrary: st)
  case Nil
  then show ?case by (simp add: grows_refl)
next
  case (Cons field rest)
  from Cons.prems(1) obtain st1 where f: "addField self heap i field st = Some (Inr st1)"
    and r: "addFields self heap i rest st1 = Some (Inr st')"
    by (auto split: option.splits sum.splits)
  from addField_result [OF assms f Cons.prems(2,3,4)]
  have r1: "stateInv st1" "grows st st1" "closedExcept heap S st1"
    "\<forall>ft. Type_field field = Some ft \<longrightarrow> linked st1 ft i" by simp_all
  from r1(2) Cons.prems(4) have o1: "typeToID st1 owner = Some i" by (rule grows_typeToID)
  from Cons.IH [OF r r1(1,3) o1]
  have r2: "stateInv st'" "grows st1 st'" "closedExcept heap S st'"
    "\<forall>f\<in>set rest. \<forall>ft. Type_field f = Some ft \<longrightarrow> linked st' ft i" by simp_all
  from r1(4) r2(2) have "\<forall>ft. Type_field field = Some ft \<longrightarrow> linked st' ft i"
    using linked_grows by blast
  with r2 r1(2) show ?case using grows_trans by auto
qed


lemma addTypeBody_spec:
  assumes "adderSpec heap self"
  shows "adderSpec heap (addTypeBody self heap)"
  unfolding adderSpec_def
proof (intro allI impI)
  fix ty st st' S
  assume a: "addTypeBody self heap ty st = Some (Inr st') \<and> stateInv st \<and>
             closedExcept heap S st"
  then have run: "addTypeBody self heap ty st = Some (Inr st')" and inv: "stateInv st"
    and cl: "closedExcept heap S st" by simp_all
  let ?goal = "stateInv st' \<and> grows st st' \<and> closedExcept heap S st' \<and>
        (\<forall>t. ty = Some t \<longrightarrow> typeToID st' t \<noteq> None)"
  show ?goal
  proof (cases ty)
    case None
    with run have "st' = st" by (simp add: addTypeBody_def)
    with inv cl None show ?thesis by (simp add: grows_refl)
  next
    case (Some t)
    show ?thesis
    proof (cases "typeToID st t \<noteq> None")
      case True
      with run Some have "st' = st" by (simp add: addTypeBody_def)
      with inv cl Some True show ?thesis by (simp add: grows_refl)
    next
      case False
      then have new: "typeToID st t = None" by simp
      let ?i = "nextID st"
      from inv have fresh: "?i \<notin> set (Nodes (graph st))"
        by (auto simp: stateInv_def)
      let ?g = "(graph st)\<lparr>Nodes := Nodes (graph st) @ [?i]\<rparr>"
      let ?st1 = "st\<lparr>graph := ?g, typeToID := (typeToID st)(t \<mapsto> ?i),
                    idToType := (idToType st)(?i \<mapsto> t), nextID := ?i + 1\<rparr>"
      from fresh inv have noid: "idToType st ?i = None"
        by (auto simp: stateInv_def)
      have inv1: "stateInv ?st1"
        using inv new noid fresh unfolding stateInv_def wfGraph_def
        by (auto simp: less_Suc_eq) (metis option.distinct(1))+
      have g1: "grows st ?st1" using new by (auto simp: grows_def map_le_def)
      have id1: "typeToID ?st1 t = Some ?i" by simp
      have cl1: "closedExcept heap (insert t S) ?st1"
        unfolding closedExcept_def
      proof (intro allI impI)
        fix u
        assume "typeToID ?st1 u \<noteq> None \<and> u \<notin> insert t S"
        then have "typeToID st u \<noteq> None" "u \<notin> S" by (auto split: if_splits)
        with cl have "closedAt heap st u" by (simp add: closedExcept_def)
        with g1 show "closedAt heap ?st1 u" by (rule closedAt_grows)
      qed
      from run Some new fresh obtain tv where d: "deref heap (Some t) = Inr tv"
        by (auto simp: addTypeBody_def AddNode_def Let_def split: sum.splits)
      then have tv: "t < length heap" "tv = heap ! t"
        by (auto simp: deref_def split: if_splits)
      have finish: "stateInv st' \<and> grows ?st1 st' \<and> closedExcept heap (insert t S) st' \<and>
          closedAt heap st' t \<Longrightarrow> ?goal"
      proof -
        assume f: "stateInv st' \<and> grows ?st1 st' \<and> closedExcept heap (insert t S) st' \<and>
          closedAt heap st' t"
        then have "grows st st'" using g1 grows_trans by blast
        moreover from f have "closedExcept heap S st'"
          unfolding closedExcept_def by (metis insertE)
        moreover from f have "typeToID st' t \<noteq> None" by (auto simp: closedAt_def)
        ultimately show ?goal using f Some by simp
      qed
      show ?thesis
      proof (cases "Kind tv = TyKindObject")
        case True
        with run Some new fresh d
        have "addFields self heap ?i (Fields tv) ?st1 = Some (Inr st')"
          by (simp add: addTypeBody_def AddNode_def Let_def)
        from addFields_result [OF assms this inv1 cl1 id1]
        have r: "stateInv st'" "grows ?st1 st'" "closedExcept heap (insert t S) st'"
          "\<forall>f\<in>set (Fields tv). \<forall>ft. Type_field f = Some ft \<longrightarrow> linked st' ft ?i"
          by simp_all
        from r(2) id1 have "typeToID st' t = Some ?i" by (rule grows_typeToID)
        with r(4) tv True have "closedAt heap st' t" by (auto simp: closedAt_def)
        with r finish show ?thesis by simp
      next
        case False
        note notObject = False
        show ?thesis
        proof (cases "Kind tv = TyKindArray")
          case True
          show ?thesis
          proof (cases "ElementType tv")
            case None
            with run Some new fresh d True
            have "st' = ?st1" by (simp add: addTypeBody_def AddNode_def Let_def)
            moreover from id1 tv True None have "closedAt heap ?st1 t"
              by (auto simp: closedAt_def)
            ultimately show ?thesis using finish inv1 cl1 grows_refl by simp
          next
            case (Some elem)
            with run \<open>ty = Some t\<close> new fresh d True
            have "addElement self elem ?i ?st1 = Some (Inr st')"
              by (simp add: addTypeBody_def AddNode_def Let_def)
            from addElement_result [OF assms this inv1 cl1 id1]
            have r: "stateInv st'" "grows ?st1 st'" "closedExcept heap (insert t S) st'"
              "linked st' elem ?i" by simp_all
            from r(2) id1 have "typeToID st' t = Some ?i" by (rule grows_typeToID)
            with r(4) tv True Some have "closedAt heap st' t" by (auto simp: closedAt_def)
            with r finish show ?thesis by simp
          qed
        next
          case False
          with run Some new fresh d notObject
          have "st' = ?st1" by (simp add: addTypeBody_def AddNode_def Let_def)
          moreover from id1 tv False notObject have "closedAt heap ?st1 t"
            by (auto simp: closedAt_def)
          ultimately show ?thesis using finish inv1 cl1 grows_refl by simp
        qed
      qed
    qed
  qed
qed

lemma addTypeToGraph_spec: "adderSpec heap (addTypeToGraph heap n)"
proof (induction n)
  case 0
  show ?case by (simp add: adderSpec_def)
next
  case (Suc n)
  then show ?case by (simp add: addTypeBody_spec)
qed

lemma addEntries_result:
  assumes "adderSpec heap add"
  shows "addEntries add entries st = Some (Inr st') \<Longrightarrow> stateInv st \<Longrightarrow>
         closedExcept heap {} st \<Longrightarrow>
         stateInv st' \<and> grows st st' \<and> closedExcept heap {} st' \<and>
         (\<forall>e\<in>set entries. typeToID st' e \<noteq> None)"
proof (induction entries arbitrary: st)
  case Nil
  then show ?case by (simp add: grows_refl)
next
  case (Cons entry rest)
  from Cons.prems(1) obtain st1 where f: "add (Some entry) st = Some (Inr st1)"
    and r: "addEntries add rest st1 = Some (Inr st')"
    by (auto split: option.splits sum.splits)
  from assms f Cons.prems(2,3)
  have r1: "stateInv st1" "grows st st1" "closedExcept heap {} st1" "typeToID st1 entry \<noteq> None"
    unfolding adderSpec_def by blast+
  from Cons.IH [OF r r1(1,3)]
  have r2: "stateInv st'" "grows st1 st'" "closedExcept heap {} st'"
    "\<forall>e\<in>set rest. typeToID st' e \<noteq> None" by simp_all
  from r1(4) r2(2) have "typeToID st' entry \<noteq> None" using grows_typeToID by fastforce
  with r2 r1(2) show ?case using grows_trans by auto
qed

lemma stateInv_initial: "stateInv initialGraphState"
  by (simp add: stateInv_def initialGraphState_def NewDirectedGraph_def wfGraph_def)

lemma closedExcept_initial: "closedExcept heap {} initialGraphState"
  by (simp add: closedExcept_def initialGraphState_def)


subsection \<open>Only reachable types get a node\<close>

text \<open>A set of types that contains, with an object, the types of its fields and their
  element types, and with an array its element type: the walk of \<open>addTypeToGraph\<close> stays
  inside such a set.\<close>

definition walkClosed :: "Ty list \<Rightarrow> ptr set \<Rightarrow> bool" where
  "walkClosed heap R \<longleftrightarrow>
     (\<forall>t\<in>R. t < length heap \<longrightarrow>
        (Kind (heap ! t) = TyKindObject \<longrightarrow>
           (\<forall>f\<in>set (Fields (heap ! t)). \<forall>ft. Type_field f = Some ft \<longrightarrow>
              ft \<in> R \<and> (ft < length heap \<longrightarrow> (\<forall>e. ElementType (heap ! ft) = Some e \<longrightarrow> e \<in> R)))) \<and>
        (Kind (heap ! t) = TyKindArray \<longrightarrow> (\<forall>e. ElementType (heap ! t) = Some e \<longrightarrow> e \<in> R)))"

definition soundSpec :: "ptr set \<Rightarrow> adder \<Rightarrow> bool" where
  "soundSpec R self \<longleftrightarrow>
     (\<forall>ty st st'.
        self ty st = Some (Inr st') \<and> (\<forall>t. ty = Some t \<longrightarrow> t \<in> R) \<and> dom (typeToID st) \<subseteq> R \<longrightarrow>
        dom (typeToID st') \<subseteq> R)"

lemma edgeFrom_typeToID: "edgeFrom x i st = Inr st' \<Longrightarrow> typeToID st' = typeToID st"
  by (auto simp: edgeFrom_def split: option.splits sum.splits)

lemma addElement_sound:
  assumes "soundSpec R self" and "addElement self x i st = Some (Inr st')"
    and "x \<in> R" and "dom (typeToID st) \<subseteq> R"
  shows "dom (typeToID st') \<subseteq> R"
proof -
  from assms(2) obtain st1 where s1: "self (Some x) st = Some (Inr st1)"
    and e: "edgeFrom x i st1 = Inr st'"
    by (auto simp: addElement_def split: option.splits sum.splits)
  from assms(1) s1 assms(3,4) have "dom (typeToID st1) \<subseteq> R"
    unfolding soundSpec_def by blast
  with edgeFrom_typeToID [OF e] show ?thesis by simp
qed

lemma addField_sound:
  assumes "soundSpec R self" and "addField self heap i field st = Some (Inr st')"
    and "\<forall>ft. Type_field field = Some ft \<longrightarrow>
           ft \<in> R \<and> (ft < length heap \<longrightarrow> (\<forall>e. ElementType (heap ! ft) = Some e \<longrightarrow> e \<in> R))"
    and "dom (typeToID st) \<subseteq> R"
  shows "dom (typeToID st') \<subseteq> R"
proof -
  from assms(2) obtain st1 where s1: "self (Type_field field) st = Some (Inr st1)"
    by (auto simp: addField_def split: option.splits sum.splits)
  from assms(1) s1 assms(3,4) have r1: "dom (typeToID st1) \<subseteq> R"
    unfolding soundSpec_def by blast
  show ?thesis
  proof (cases "Type_field field")
    case None
    with assms(2) s1 have "st' = st1" by (simp add: addField_def)
    with r1 show ?thesis by simp
  next
    case (Some ft)
    from assms(2) s1 Some obtain st2 where e: "edgeFrom ft i st1 = Inr st2"
      by (auto simp: addField_def split: sum.splits)
    from edgeFrom_typeToID [OF e] r1 have r2: "dom (typeToID st2) \<subseteq> R" by simp
    from assms(2) s1 Some e obtain fieldTy where d: "deref heap (Some ft) = Inr fieldTy"
      by (auto simp: addField_def split: sum.splits)
    then have ft: "ft < length heap" "fieldTy = heap ! ft"
      by (auto simp: deref_def split: if_splits)
    show ?thesis
    proof (cases "ElementType fieldTy")
      case None
      with assms(2) s1 Some e d have "st' = st2" by (simp add: addField_def)
      with r2 show ?thesis by simp
    next
      case (Some elem)
      with assms(2) s1 \<open>Type_field field = Some ft\<close> e d
      have a: "addElement self elem i st2 = Some (Inr st')" by (simp add: addField_def)
      from assms(3) \<open>Type_field field = Some ft\<close> ft Some have "elem \<in> R" by simp
      from addElement_sound [OF assms(1) a this r2] show ?thesis .
    qed
  qed
qed

lemma addFields_sound:
  assumes "soundSpec R self"
  shows "addFields self heap i fs st = Some (Inr st') \<Longrightarrow>
         \<forall>f\<in>set fs. \<forall>ft. Type_field f = Some ft \<longrightarrow>
           ft \<in> R \<and> (ft < length heap \<longrightarrow> (\<forall>e. ElementType (heap ! ft) = Some e \<longrightarrow> e \<in> R)) \<Longrightarrow>
         dom (typeToID st) \<subseteq> R \<Longrightarrow> dom (typeToID st') \<subseteq> R"
proof (induction fs arbitrary: st)
  case Nil
  then show ?case by simp
next
  case (Cons field rest)
  from Cons.prems(1) obtain st1 where f: "addField self heap i field st = Some (Inr st1)"
    and r: "addFields self heap i rest st1 = Some (Inr st')"
    by (auto split: option.splits sum.splits)
  from Cons.prems(2) have h: "\<forall>ft. Type_field field = Some ft \<longrightarrow>
           ft \<in> R \<and> (ft < length heap \<longrightarrow> (\<forall>e. ElementType (heap ! ft) = Some e \<longrightarrow> e \<in> R))"
    by simp
  from addField_sound [OF assms f h Cons.prems(3)] have "dom (typeToID st1) \<subseteq> R" .
  from Cons.IH [OF r _ this] Cons.prems(2) show ?case by simp
qed

lemma addTypeBody_sound:
  assumes "soundSpec R self" and "walkClosed heap R"
  shows "soundSpec R (addTypeBody self heap)"
  unfolding soundSpec_def
proof (intro allI impI)
  fix ty st st'
  assume a: "addTypeBody self heap ty st = Some (Inr st') \<and> (\<forall>t. ty = Some t \<longrightarrow> t \<in> R) \<and>
    dom (typeToID st) \<subseteq> R"
  then have run: "addTypeBody self heap ty st = Some (Inr st')"
    and inR: "\<forall>t. ty = Some t \<longrightarrow> t \<in> R" and sub: "dom (typeToID st) \<subseteq> R" by simp_all
  show "dom (typeToID st') \<subseteq> R"
  proof (cases ty)
    case None
    with run have "st' = st" by (simp add: addTypeBody_def)
    with sub show ?thesis by simp
  next
    case (Some t)
    with inR have t: "t \<in> R" by simp
    show ?thesis
    proof (cases "typeToID st t \<noteq> None")
      case True
      with run Some have "st' = st" by (simp add: addTypeBody_def)
      with sub show ?thesis by simp
    next
      case False
      then have new: "typeToID st t = None" by simp
      let ?i = "nextID st"
      from run Some new obtain g where g: "AddNode ?i (graph st) = Inr g"
        by (auto simp: addTypeBody_def split: sum.splits)
      let ?st1 = "st\<lparr>graph := g, typeToID := (typeToID st)(t \<mapsto> ?i),
                    idToType := (idToType st)(?i \<mapsto> t), nextID := ?i + 1\<rparr>"
      from sub t have sub1: "dom (typeToID ?st1) \<subseteq> R" by auto
      from run Some new g obtain tv where d: "deref heap (Some t) = Inr tv"
        by (auto simp: addTypeBody_def Let_def split: sum.splits)
      then have tv: "t < length heap" "tv = heap ! t"
        by (auto simp: deref_def split: if_splits)
      show ?thesis
      proof (cases "Kind tv = TyKindObject")
        case True
        with run Some new g d
        have r: "addFields self heap ?i (Fields tv) ?st1 = Some (Inr st')"
          by (simp add: addTypeBody_def Let_def)
        from assms(2) t tv True
        have "\<forall>f\<in>set (Fields tv). \<forall>ft. Type_field f = Some ft \<longrightarrow>
           ft \<in> R \<and> (ft < length heap \<longrightarrow> (\<forall>e. ElementType (heap ! ft) = Some e \<longrightarrow> e \<in> R))"
          unfolding walkClosed_def by blast
        from addFields_sound [OF assms(1) r this sub1] show ?thesis .
      next
        case False
        note notObject = False
        show ?thesis
        proof (cases "Kind tv = TyKindArray")
          case True
          show ?thesis
          proof (cases "ElementType tv")
            case None
            with run Some new g d True
            have "st' = ?st1" by (simp add: addTypeBody_def Let_def)
            with sub1 show ?thesis by simp
          next
            case (Some elem)
            with run \<open>ty = Some t\<close> new g d True
            have r: "addElement self elem ?i ?st1 = Some (Inr st')"
              by (simp add: addTypeBody_def Let_def)
            from assms(2) t tv True Some have "elem \<in> R"
              unfolding walkClosed_def by blast
            from addElement_sound [OF assms(1) r this sub1] show ?thesis .
          qed
        next
          case False
          with run Some new g d notObject
          have "st' = ?st1" by (simp add: addTypeBody_def Let_def)
          with sub1 show ?thesis by simp
        qed
      qed
    qed
  qed
qed

lemma addTypeToGraph_sound: "walkClosed heap R \<Longrightarrow> soundSpec R (addTypeToGraph heap n)"
proof (induction n)
  case 0
  show ?case by (simp add: soundSpec_def)
next
  case (Suc n)
  then show ?case by (simp add: addTypeBody_sound)
qed

lemma addEntries_sound:
  assumes "soundSpec R add"
  shows "addEntries add entries st = Some (Inr st') \<Longrightarrow> set entries \<subseteq> R \<Longrightarrow>
         dom (typeToID st) \<subseteq> R \<Longrightarrow> dom (typeToID st') \<subseteq> R"
proof (induction entries arbitrary: st)
  case Nil
  then show ?case by simp
next
  case (Cons entry rest)
  from Cons.prems(1) obtain st1 where f: "add (Some entry) st = Some (Inr st1)"
    and r: "addEntries add rest st1 = Some (Inr st')"
    by (auto split: option.splits sum.splits)
  from assms f Cons.prems(2,3) have "dom (typeToID st1) \<subseteq> R"
    unfolding soundSpec_def by simp blast
  from Cons.IH [OF r _ this] Cons.prems(2) show ?case by simp
qed


subsection \<open>Positions in a list\<close>

lemma before_iff_nth:
  "before xs u v \<longleftrightarrow> (\<exists>i j. i < j \<and> j < length xs \<and> xs ! i = u \<and> xs ! j = v)"
proof
  assume "before xs u v"
  then obtain as bs cs where xs: "xs = as @ u # bs @ v # cs" by (auto simp: before_def)
  have 1: "xs ! length as = u" by (simp add: xs)
  have 2: "xs ! (length as + Suc (length bs)) = v"
    by (simp add: xs nth_append)
  have 3: "length as + Suc (length bs) < length xs" by (simp add: xs)
  have 4: "length as < length as + Suc (length bs)" by simp
  from 1 2 3 4 show "\<exists>i j. i < j \<and> j < length xs \<and> xs ! i = u \<and> xs ! j = v"
    by blast
next
  assume "\<exists>i j. i < j \<and> j < length xs \<and> xs ! i = u \<and> xs ! j = v"
  then obtain i j where ij: "i < j" "j < length xs" "xs ! i = u" "xs ! j = v" by blast
  from id_take_nth_drop [OF ij(2)] ij(4)
  have a: "take j xs @ v # drop (Suc j) xs = xs" by (simp only:)
  from ij(1,2) have "i < length (take j xs)" by simp
  from id_take_nth_drop [OF this]
  have "take i (take j xs) @ take j xs ! i # drop (Suc i) (take j xs) = take j xs"
    by (rule sym)
  moreover from ij(1) have "take j xs ! i = xs ! i" by simp
  ultimately have b: "take i (take j xs) @ u # drop (Suc i) (take j xs) = take j xs"
    using ij(3) by (simp only:)
  have "(take i (take j xs) @ u # drop (Suc i) (take j xs)) @ v # drop (Suc j) xs = xs"
    by (simp only: a b)
  then have "take i (take j xs) @ u # drop (Suc i) (take j xs) @ v # drop (Suc j) xs = xs"
    by (simp only: append_assoc append_Cons)
  then have "xs = take i (take j xs) @ u # drop (Suc i) (take j xs) @ v # drop (Suc j) xs"
    by (rule sym)
  then show "before xs u v" unfolding before_def by blast
qed

lemma before_map:
  assumes "before xs u v"
  shows "before (map f xs) (f u) (f v)"
proof -
  from assms obtain as bs cs where "xs = as @ u # bs @ v # cs" by (auto simp: before_def)
  then have "map f xs = map f as @ f u # map f bs @ f v # map f cs" by simp
  then show ?thesis unfolding before_def by blast
qed

lemma before_filter:
  assumes "before xs u v" and "P u" and "P v"
  shows "before (filter P xs) u v"
proof -
  from assms(1) obtain as bs cs where "xs = as @ u # bs @ v # cs" by (auto simp: before_def)
  with assms(2,3)
  have "filter P xs = filter P as @ u # filter P bs @ v # filter P cs" by simp
  then show ?thesis unfolding before_def by blast
qed

lemma before_set: "before xs u v \<Longrightarrow> u \<in> set xs \<and> v \<in> set xs"
  unfolding before_def by auto

lemma before_trans:
  assumes "distinct xs" and "before xs u v" and "before xs v w"
  shows "before xs u w"
proof -
  from assms(2) obtain i j where ij: "i < j" "j < length xs" "xs ! i = u" "xs ! j = v"
    unfolding before_iff_nth by blast
  from assms(3) obtain j' k where jk: "j' < k" "k < length xs" "xs ! j' = v" "xs ! k = w"
    unfolding before_iff_nth by blast
  from jk(1,2) have j': "j' < length xs" by simp
  from nth_eq_iff_index_eq [OF assms(1) ij(2) j'] ij(4) jk(3) have "j = j'" by simp
  with ij jk have "i < k" by simp
  with ij(3) jk(2,4) show ?thesis unfolding before_iff_nth by blast
qed

lemma before_asym:
  assumes "distinct xs" and "before xs u v"
  shows "\<not> before xs v u"
proof
  assume "before xs v u"
  from before_trans [OF assms(1) assms(2) this] have "before xs u u" .
  then obtain i j where ij: "i < j" "j < length xs" "xs ! i = u" "xs ! j = u"
    unfolding before_iff_nth by blast
  then have i: "i < length xs" by simp
  from ij(3,4) have "xs ! i = xs ! j" by simp
  with nth_eq_iff_index_eq [OF assms(1) i ij(2)] have "i = j" by blast
  with ij(1) show False by simp
qed

lemma before_nth:
  assumes "distinct xs" and "before xs u v" and "k < length xs" and "xs ! k = v"
  shows "\<exists>j<k. xs ! j = u"
proof -
  from assms(2) obtain i j where ij: "i < j" "j < length xs" "xs ! i = u" "xs ! j = v"
    unfolding before_iff_nth by blast
  from nth_eq_iff_index_eq [OF assms(1) ij(2) assms(3)] ij(4) assms(4) have "j = k" by simp
  with ij show ?thesis by blast
qed




subsection \<open>The sorted type list of a grouping\<close>

text \<open>\<open>dep heap t u\<close>: the type \<open>u\<close> is the type of a field of the object \<open>t\<close>, or the
  element type of the array \<open>t\<close>.\<close>

definition dep :: "Ty list \<Rightarrow> ptr \<Rightarrow> ptr \<Rightarrow> bool" where
  "dep heap t u \<longleftrightarrow>
     t < length heap \<and>
     (Kind (heap ! t) = TyKindObject \<and> (\<exists>f\<in>set (Fields (heap ! t)). Type_field f = Some u) \<or>
      Kind (heap ! t) = TyKindArray \<and> ElementType (heap ! t) = Some u)"

lemma topologicalSortTypes_result:
  assumes c: "topoContract topoSort"
    and run: "topologicalSortTypes topoSort fuel heap entries = Some (Inr result)"
    and ne: "entries \<noteq> []"
  shows "\<exists>ts. result = map Some ts \<and> distinct ts \<and> set entries \<subseteq> set ts \<and>
           (\<forall>t\<in>set ts. t < length heap) \<and>
           (\<forall>t\<in>set ts. \<forall>u. dep heap t u \<longrightarrow> before ts u t) \<and>
           (\<forall>R. walkClosed heap R \<and> set entries \<subseteq> R \<longrightarrow> set ts \<subseteq> R)"
proof -
  from run ne obtain st where
    add: "addEntries (addTypeToGraph heap fuel) entries initialGraphState = Some (Inr st)"
    by (auto simp: topologicalSortTypes_def split: option.splits sum.splits)
  with run ne obtain sortedIDs where
    srt: "topoSort (graph st) (orderByName heap st) = Inr sortedIDs"
    and res: "result = map (idToType st) sortedIDs"
    by (auto simp: topologicalSortTypes_def split: sum.splits)
  from addEntries_result [OF addTypeToGraph_spec add stateInv_initial closedExcept_initial]
  have inv: "stateInv st" and cl: "closedExcept heap {} st"
    and ent: "\<forall>e\<in>set entries. typeToID st e \<noteq> None" by simp_all
  from inv have bij: "\<And>t i. typeToID st t = Some i \<longleftrightarrow> idToType st i = Some t"
    and nodes: "\<And>i. idToType st i \<noteq> None \<longleftrightarrow> i \<in> set (Nodes (graph st))"
    and wf: "wfGraph (graph st)"
    by (simp_all add: stateInv_def)
  from c wf srt have d: "distinct sortedIDs" and n: "set sortedIDs = set (Nodes (graph st))"
    and e: "\<forall>(u, v)\<in>set (Edges (graph st)). before sortedIDs u v"
    unfolding topoContract_def by blast+
  define f where "f = (\<lambda>i. the (idToType st i))"
  define ts where "ts = map f sortedIDs"
  have some: "\<And>i. i \<in> set sortedIDs \<Longrightarrow> idToType st i = Some (f i)"
    using nodes n by (auto simp: f_def)
  have r: "result = map Some ts"
    unfolding res ts_def using some by simp
  have "inj_on f (set sortedIDs)"
  proof (rule inj_onI)
    fix i j
    assume i: "i \<in> set sortedIDs" and j: "j \<in> set sortedIDs" and eq: "f i = f j"
    from some [OF i] have "typeToID st (f i) = Some i" by (simp add: bij)
    moreover from some [OF j] eq have "typeToID st (f i) = Some j" by (simp add: bij)
    ultimately show "i = j" by simp
  qed
  with d have dts: "distinct ts" by (simp add: ts_def distinct_map)
  have mem: "\<And>t. t \<in> set ts \<longleftrightarrow> typeToID st t \<noteq> None"
  proof
    fix t
    assume "t \<in> set ts"
    then obtain i where i: "i \<in> set sortedIDs" "t = f i" by (auto simp: ts_def)
    from some [OF i(1)] i(2) have "typeToID st t = Some i" by (simp add: bij)
    then show "typeToID st t \<noteq> None" by simp
  next
    fix t
    assume "typeToID st t \<noteq> None"
    then obtain i where i: "typeToID st t = Some i" by auto
    then have it: "idToType st i = Some t" by (simp add: bij)
    then have "i \<in> set sortedIDs" using nodes n by auto
    moreover from it have "f i = t" by (simp add: f_def)
    ultimately show "t \<in> set ts" by (auto simp: ts_def)
  qed
  have closed: "\<And>t. t \<in> set ts \<Longrightarrow> closedAt heap st t"
    using cl mem by (simp add: closedExcept_def)
  have e1: "set entries \<subseteq> set ts" using ent mem by auto
  have e2: "\<forall>t\<in>set ts. t < length heap" using closed by (auto simp: closedAt_def)
  have e3: "\<forall>t\<in>set ts. \<forall>u. dep heap t u \<longrightarrow> before ts u t"
  proof (intro ballI allI impI)
    fix t u
    assume t: "t \<in> set ts" and du: "dep heap t u"
    from closed [OF t] obtain i where i: "typeToID st t = Some i"
      and o: "Kind (heap ! t) = TyKindObject \<longrightarrow>
           (\<forall>f\<in>set (Fields (heap ! t)). \<forall>ft. Type_field f = Some ft \<longrightarrow> linked st ft i)"
      and a: "Kind (heap ! t) = TyKindArray \<longrightarrow>
           (\<forall>e. ElementType (heap ! t) = Some e \<longrightarrow> linked st e i)"
      unfolding closedAt_def by blast
    from du o a have "linked st u i" unfolding dep_def by auto
    then obtain j where j: "typeToID st u = Some j" "(j, i) \<in> set (Edges (graph st))"
      by (auto simp: linked_def)
    from e j(2) have "before sortedIDs j i" by auto
    then have "before ts (f j) (f i)" unfolding ts_def by (rule before_map)
    moreover from j(1) have "f j = u" by (simp add: bij f_def)
    moreover from i have "f i = t" by (simp add: bij f_def)
    ultimately show "before ts u t" by simp
  qed
  have e4: "\<forall>R. walkClosed heap R \<and> set entries \<subseteq> R \<longrightarrow> set ts \<subseteq> R"
  proof (intro allI impI)
    fix R
    assume R: "walkClosed heap R \<and> set entries \<subseteq> R"
    then have "soundSpec R (addTypeToGraph heap fuel)" by (simp add: addTypeToGraph_sound)
    from addEntries_sound [OF this add] R have "dom (typeToID st) \<subseteq> R"
      by (simp add: initialGraphState_def)
    with mem show "set ts \<subseteq> R" by auto
  qed
  from r dts e1 e2 e3 e4 show ?thesis by blast
qed

lemma deleteUnnamed_map_Some:
  "\<forall>t\<in>set ts. t < length heap \<Longrightarrow>
   deleteUnnamed heap (map Some ts) = Inr (filter (\<lambda>t. IsNamed (heap ! t)) ts)"
  by (induction ts) (auto simp: deref_def)

text \<open>
  What the last loop leaves in a grouping: no types, or the named types of a list \<open>ts\<close>
  that holds each of its types once, holds every entry type of the grouping, holds every
  dependency of each of its types at an earlier position, and stays inside every set that
  contains the entry types and is closed under the walk.
\<close>

definition sortedModule :: "Ty list \<Rightarrow> Module \<Rightarrow> bool" where
  "sortedModule heap m \<longleftrightarrow>
     Types m = [] \<or>
     (\<exists>ts. distinct ts \<and> set (entryTypesOf (HttpHandlers m)) \<subseteq> set ts \<and>
        (\<forall>t\<in>set ts. t < length heap) \<and>
        (\<forall>t\<in>set ts. \<forall>u. dep heap t u \<longrightarrow> before ts u t) \<and>
        (\<forall>R. walkClosed heap R \<and> set (entryTypesOf (HttpHandlers m)) \<subseteq> R \<longrightarrow> set ts \<subseteq> R) \<and>
        Types m = filter (\<lambda>t. IsNamed (heap ! t)) ts)"

lemma sortModuleTypes_result:
  assumes c: "topoContract topoSort"
    and run: "sortModuleTypes topoSort fmtP fuel heap m = Some (Inr m')"
  shows "sortedModule heap m' \<and> HttpHandlers m' = HttpHandlers m"
proof (cases "Types m = []")
  case True
  with run have "m' = m" by (simp add: sortModuleTypes_def)
  with True show ?thesis by (simp add: sortedModule_def)
next
  case False
  let ?entries = "remdups_adj (sort_key fmtP (entryTypesOf (HttpHandlers m)))"
  from run False obtain result named where
    t: "topologicalSortTypes topoSort fuel heap ?entries = Some (Inr result)"
    and dl: "deleteUnnamed heap result = Inr named" and m': "m' = m\<lparr>Types := named\<rparr>"
    by (auto simp: sortModuleTypes_def split: option.splits sum.splits)
  have se: "set ?entries = set (entryTypesOf (HttpHandlers m))" by simp
  show ?thesis
  proof (cases "?entries = []")
    case True
    with t have "result = []" by (simp add: topologicalSortTypes_def)
    with dl have "named = []" by simp
    with m' show ?thesis by (simp add: sortedModule_def)
  next
    case False
    from topologicalSortTypes_result [OF c t False] obtain ts where
      ts: "result = map Some ts" "distinct ts" "set ?entries \<subseteq> set ts"
      "\<forall>t\<in>set ts. t < length heap" "\<forall>t\<in>set ts. \<forall>u. dep heap t u \<longrightarrow> before ts u t"
      "\<forall>R. walkClosed heap R \<and> set ?entries \<subseteq> R \<longrightarrow> set ts \<subseteq> R"
      by blast
    from dl ts(1,4) have "named = filter (\<lambda>t. IsNamed (heap ! t)) ts"
      by (simp add: deleteUnnamed_map_Some)
    with ts(2-6) m' show ?thesis unfolding sortedModule_def se by auto
  qed
qed


lemma sortModules_result:
  assumes c: "topoContract topoSort"
  shows "sortModules topoSort fmtP fuel p keys = Some (None, p') \<Longrightarrow>
         store p' = store p \<and>
         (\<forall>k. (map_of (modules p') k = None) = (map_of (modules p) k = None)) \<and>
         (\<forall>k m m'. map_of (modules p) k = Some m \<and> map_of (modules p') k = Some m' \<longrightarrow>
            HttpHandlers m' = HttpHandlers m) \<and>
         (\<forall>k m'. map_of (modules p') k = Some m' \<and>
            (k \<in> set keys \<or> (\<forall>m. map_of (modules p) k = Some m \<longrightarrow> sortedModule (store p) m)) \<longrightarrow>
            sortedModule (store p') m')"
proof (induction keys arbitrary: p)
  case Nil
  then show ?case by auto
next
  case (Cons mn rest)
  show ?case
  proof (cases "map_of (modules p) mn")
    case None
    with Cons.prems have run: "sortModules topoSort fmtP fuel p rest = Some (None, p')"
      by simp
    note ih0 = Cons.IH [OF run]
    note ih = conjunct1 [OF ih0] conjunct1 [OF conjunct2 [OF ih0]]
      conjunct1 [OF conjunct2 [OF conjunct2 [OF ih0]]]
      conjunct2 [OF conjunct2 [OF conjunct2 [OF ih0]]]
    have "\<forall>k m'. map_of (modules p') k = Some m' \<and>
            (k \<in> set (mn # rest) \<or>
             (\<forall>m. map_of (modules p) k = Some m \<longrightarrow> sortedModule (store p) m)) \<longrightarrow>
            sortedModule (store p') m'"
    proof (intro allI impI)
      fix k m'
      assume a: "map_of (modules p') k = Some m' \<and>
            (k \<in> set (mn # rest) \<or>
             (\<forall>m. map_of (modules p) k = Some m \<longrightarrow> sortedModule (store p) m))"
      with ih(2) None have "k \<noteq> mn" by (metis option.distinct(1))
      with a ih(4) show "sortedModule (store p') m'" by auto
    qed
    with ih(1,2,3) show ?thesis by simp
  next
    case (Some m)
    with Cons.prems obtain m1 where
      s: "sortModuleTypes topoSort fmtP fuel (store p) m = Some (Inr m1)"
      by (auto split: option.splits sum.splits)
    let ?p1 = "p\<lparr>modules := AList.update mn m1 (modules p)\<rparr>"
    from Cons.prems Some s
    have run: "sortModules topoSort fmtP fuel ?p1 rest = Some (None, p')" by simp
    from sortModuleTypes_result [OF c s]
    have m1: "sortedModule (store p) m1" "HttpHandlers m1 = HttpHandlers m" by simp_all
    have look: "map_of (modules ?p1) = (map_of (modules p))(mn \<mapsto> m1)"
      by (simp add: update_conv')
    note ih0 = Cons.IH [OF run]
    note ih = conjunct1 [OF ih0] conjunct1 [OF conjunct2 [OF ih0]]
      conjunct1 [OF conjunct2 [OF conjunct2 [OF ih0]]]
      conjunct2 [OF conjunct2 [OF conjunct2 [OF ih0]]]
    have st1: "store ?p1 = store p" by simp
    have g2: "\<forall>k. (map_of (modules p') k = None) = (map_of (modules p) k = None)"
      using ih(2) Some unfolding look by auto
    have g3: "\<forall>k ma m'. map_of (modules p) k = Some ma \<and> map_of (modules p') k = Some m' \<longrightarrow>
            HttpHandlers m' = HttpHandlers ma"
    proof (intro allI impI)
      fix k ma m'
      assume a: "map_of (modules p) k = Some ma \<and> map_of (modules p') k = Some m'"
      show "HttpHandlers m' = HttpHandlers ma"
      proof (cases "k = mn")
        case True
        with a Some have "ma = m" by simp
        moreover from ih(3) [rule_format, of mn m1 m'] a True
        have "HttpHandlers m' = HttpHandlers m1"
          unfolding look by simp
        ultimately show ?thesis using m1(2) by simp
      next
        case False
        with ih(3) [rule_format, of k ma m'] a show ?thesis unfolding look by simp
      qed
    qed
    have g4: "\<forall>k m'. map_of (modules p') k = Some m' \<and>
            (k \<in> set (mn # rest) \<or>
             (\<forall>m. map_of (modules p) k = Some m \<longrightarrow> sortedModule (store p) m)) \<longrightarrow>
            sortedModule (store p') m'"
    proof (intro allI impI)
      fix k m'
      assume a: "map_of (modules p') k = Some m' \<and>
            (k \<in> set (mn # rest) \<or>
             (\<forall>m. map_of (modules p) k = Some m \<longrightarrow> sortedModule (store p) m))"
      have "k \<in> set rest \<or>
             (\<forall>m. map_of (modules ?p1) k = Some m \<longrightarrow> sortedModule (store ?p1) m)"
      proof (cases "k = mn")
        case True
        with m1(1) show ?thesis unfolding look st1 by simp
      next
        case False
        with a show ?thesis unfolding look st1 by auto
      qed
      with ih(4) a show "sortedModule (store p') m'" by blast
    qed
    from ih(1) g2 g3 g4 show ?thesis unfolding st1 by blast
  qed
qed

lemma assignTypesToModules_sorted:
  assumes c: "topoContract topoSort" and v: "validOrder ord"
    and run: "assignTypesToModules topoSort ord fmtP fuel p = Some (None, p')"
    and m: "map_of (modules p') mn = Some m"
  shows "sortedModule (store p') m"
proof -
  from run obtain p3 where
    s: "sortModules topoSort fmtP fuel (tick p3)
          (map fst (rangeMap ord (ranges p3) (modules p3))) = Some (None, p')"
    by (auto simp: assignTypesToModules_def Let_def split: option.splits sum.splits prod.splits)
  note r0 = sortModules_result [OF c s]
  note r = conjunct1 [OF conjunct2 [OF r0]] conjunct2 [OF conjunct2 [OF conjunct2 [OF r0]]]
  from r(1) [rule_format, of mn] m have "map_of (modules p3) mn \<noteq> None" by simp
  then obtain m3 where "map_of (modules p3) mn = Some m3" by blast
  with v have "(mn, m3) \<in> set (rangeMap ord (ranges p3) (modules p3))"
    by (simp add: set_rangeMap_valid)
  then have "mn \<in> set (map fst (rangeMap ord (ranges p3) (modules p3)))" by force
  with r(2) [rule_format, of mn m] m show ?thesis by simp
qed

lemma dep_reach_before:
  assumes d: "distinct ts" and b: "\<forall>t\<in>set ts. \<forall>u. dep heap t u \<longrightarrow> before ts u t"
  shows "(dep heap)\<^sup>+\<^sup>+ t u \<Longrightarrow> t \<in> set ts \<Longrightarrow> before ts u t"
proof (induction rule: tranclp_induct)
  case (base y)
  with b show ?case by blast
next
  case (step y z)
  then have yt: "before ts y t" by simp
  then have "y \<in> set ts" by (simp add: before_set)
  with b step.hyps(2) have "before ts z y" by blast
  from before_trans [OF d this yt] show ?case .
qed


subsection \<open>Example groupings\<close>

text \<open>A printed address: \<open>0x\<close> and the hexadecimal digits of the address.\<close>

fun hexDigits :: "nat \<Rightarrow> string" where
  "hexDigits n =
     (if n < 16 then [''0123456789abcdef'' ! n]
      else hexDigits (n div 16) @ [''0123456789abcdef'' ! (n mod 16)])"

definition printAddress :: "ptr \<Rightarrow> string" where
  "printAddress a = ''0x'' @ hexDigits a"

text \<open>
  The types \<open>Pet {owner: Owner, tags: [Tag]}\<close>, \<open>Owner {name: string}\<close> and
  \<open>Tag {label: string}\<close>, and a type \<open>Orphan\<close> that no handler uses; the grouping \<open>pets\<close> has
  one handler, which returns \<open>Pet\<close>, and the configuration assigns \<open>Orphan\<close> to \<open>pets\<close>.
\<close>

definition petHeap :: "Ty list" where
  "petHeap =
     [objectTy ''Pet'' True [mkField ''owner'' 1, mkField ''tags'' 2],
      objectTy ''Owner'' True [mkField ''name'' 4],
      arrayTy (Some 3),
      objectTy ''Tag'' True [mkField ''label'' 4],
      primTy PrimitiveString,
      objectTy ''Orphan'' True []]"

definition petParser :: Parser where
  "petParser =
     mkParser [(''Pet'', 0), (''Owner'', 1), (''Tag'', 3), (''Orphan'', 5)]
       [(''pets'', \<lparr>Name_module = ''pets'',
                    HttpHandlers = [mkHandler ''GetPet'' ''GET'' [] None (Some 0)],
                    Types = []\<rparr>)]
       (emptyConfig\<lparr>TypeModuleMap := [(''Orphan'', ''pets'')]\<rparr>)
       petHeap"

text \<open>The state after \<open>assignTypesToModules\<close>: the four named types belong to \<open>pets\<close>, and
  the type list of \<open>pets\<close> is \<open>Owner\<close>, \<open>Tag\<close>, \<open>Pet\<close>.\<close>

definition petModuleDone :: Module where
  "petModuleDone = \<lparr>Name_module = ''pets'',
     HttpHandlers = [mkHandler ''GetPet'' ''GET'' [] None (Some 0)],
     Types = [1, 3, 0]\<rparr>"

definition petDone :: Parser where
  "petDone = petParser\<lparr>modules := [(''pets'', petModuleDone)],
     store := map (\<lambda>t. if IsNamed t then t\<lparr>Module := ''pets''\<rparr> else t) petHeap,
     ranges := 7\<rparr>"

lemma petParser_run:
  "assignTypesToModules referenceSort writtenOrder printAddress 7 petParser = Some (None, petDone)"
  by code_simp


text \<open>
  C7. When \<open>assignTypesToModules\<close> succeeds, then in the final type list of every grouping,
  for the type at position \<open>i\<close>, every named type \<open>u\<close> reachable from it through object
  fields and array element types stands at a position before \<open>i\<close>. (The sort is any
  function that meets the library contract, the order of map iteration any permutation.)
\<close>

theorem topological_validity:
  assumes "topoContract topoSort" and "validOrder ord"
    and "assignTypesToModules topoSort ord fmtP fuel p = Some (None, p')"
    and "map_of (modules p') mn = Some m"
    and "i < length (Types m)"
    and "(dep (store p'))\<^sup>+\<^sup>+ (Types m ! i) u"
    and "IsNamed (store p' ! u)"
  shows "\<exists>j<i. Types m ! j = u"
proof -
  let ?heap = "store p'"
  let ?P = "\<lambda>t. IsNamed (?heap ! t)"
  from assignTypesToModules_sorted [OF assms(1-4)] assms(5) obtain ts where
    ts: "distinct ts" "\<forall>t\<in>set ts. \<forall>u. dep ?heap t u \<longrightarrow> before ts u t"
    "Types m = filter ?P ts"
    unfolding sortedModule_def by auto
  from assms(5) have "Types m ! i \<in> set (Types m)" by simp
  then have t: "Types m ! i \<in> set ts" "?P (Types m ! i)" unfolding ts(3) by simp_all
  from dep_reach_before [OF ts(1,2) assms(6) t(1)] have "before ts u (Types m ! i)" .
  from before_filter [OF this, of ?P] assms(7) t(2)
  have b: "before (Types m) u (Types m ! i)" unfolding ts(3) by simp
  from ts(1) have "distinct (Types m)" unfolding ts(3) by simp
  from before_nth [OF this b assms(5)] show ?thesis by simp
qed

theorem topological_validity_witness:
  "assignTypesToModules referenceSort writtenOrder printAddress 7 petParser = Some (None, petDone) \<and>
   map_of (modules petDone) ''pets'' = Some petModuleDone \<and>
   Types petModuleDone ! 2 = 0 \<and> (dep (store petDone))\<^sup>+\<^sup>+ 0 3 \<and>
   IsNamed (store petDone ! 3) \<and> Types petModuleDone ! 1 = 3"
proof -
  have m: "map_of (modules petDone) ''pets'' = Some petModuleDone"
    and i: "2 < length (Types petModuleDone)" and t: "Types petModuleDone ! 2 = 0"
    and n: "IsNamed (store petDone ! 3)"
    by (simp_all add: petDone_def petModuleDone_def petHeap_def example_defs)
  have d: "dep (store petDone) 0 2" "dep (store petDone) 2 3"
    by (simp_all add: dep_def petDone_def petHeap_def example_defs)
  from d(1) have "(dep (store petDone))\<^sup>+\<^sup>+ 0 2" by (rule tranclp.r_into_trancl)
  from this d(2) have r: "(dep (store petDone))\<^sup>+\<^sup>+ 0 3"
    by (rule tranclp.trancl_into_trancl)
  then have r': "(dep (store petDone))\<^sup>+\<^sup>+ (Types petModuleDone ! 2) 3" using t by simp
  from topological_validity [OF topoContract_referenceSort validOrder_writtenOrder
      petParser_run m i r' n]
  obtain j where "j < 2" "Types petModuleDone ! j = 3" by blast
  moreover have "Types petModuleDone ! 0 \<noteq> 3" by (simp add: petModuleDone_def)
  ultimately have "Types petModuleDone ! 1 = 3"
    by (cases j) (auto simp: less_Suc_eq numeral_2_eq_2)
  with petParser_run m t r n show ?thesis by simp
qed

text \<open>In every store that \<open>convertSchema\<close> builds, only array types have an element
  type.\<close>

definition elementOnlyInArrays :: "Ty list \<Rightarrow> bool" where
  "elementOnlyInArrays heap \<longleftrightarrow>
     (\<forall>t<length heap. ElementType (heap ! t) \<noteq> None \<longrightarrow> Kind (heap ! t) = TyKindArray)"

lemma entryTypesOf_member:
  "e \<in> set (entryTypesOf hs) \<Longrightarrow>
   \<exists>h\<in>set hs. RequestBody h = Some e \<or> ResponseBody h = Some e"
  by (auto simp: entryTypesOf_def split: option.splits)

lemma walkClosed_reachable:
  assumes "elementOnlyInArrays heap"
  shows "walkClosed heap {u. \<exists>e\<in>E. (dep heap)\<^sup>*\<^sup>* e u}"
  unfolding walkClosed_def
proof (intro ballI impI conjI allI)
  fix t f ft
  assume t: "t \<in> {u. \<exists>e\<in>E. (dep heap)\<^sup>*\<^sup>* e u}" and l: "t < length heap"
    and k: "Kind (heap ! t) = TyKindObject" and f: "f \<in> set (Fields (heap ! t))"
    and ft: "Type_field f = Some ft"
  from l k f ft have d: "dep heap t ft" by (auto simp: dep_def)
  from t obtain e where e: "e \<in> E" "(dep heap)\<^sup>*\<^sup>* e t" by blast
  from e(2) d have r: "(dep heap)\<^sup>*\<^sup>* e ft" by (rule rtranclp.rtrancl_into_rtrancl)
  with e(1) show "ft \<in> {u. \<exists>e\<in>E. (dep heap)\<^sup>*\<^sup>* e u}" by blast
next
  fix t f ft x
  assume t: "t \<in> {u. \<exists>e\<in>E. (dep heap)\<^sup>*\<^sup>* e u}" and l: "t < length heap"
    and k: "Kind (heap ! t) = TyKindObject" and f: "f \<in> set (Fields (heap ! t))"
    and ft: "Type_field f = Some ft" and fl: "ft < length heap"
    and x: "ElementType (heap ! ft) = Some x"
  from l k f ft have d: "dep heap t ft" by (auto simp: dep_def)
  from t obtain e where e: "e \<in> E" "(dep heap)\<^sup>*\<^sup>* e t" by blast
  from e(2) d have r: "(dep heap)\<^sup>*\<^sup>* e ft" by (rule rtranclp.rtrancl_into_rtrancl)
  from assms fl x have "Kind (heap ! ft) = TyKindArray"
    by (auto simp: elementOnlyInArrays_def)
  with fl x have "dep heap ft x" by (simp add: dep_def)
  with r have "(dep heap)\<^sup>*\<^sup>* e x" by (rule rtranclp.rtrancl_into_rtrancl)
  with e(1) show "x \<in> {u. \<exists>e\<in>E. (dep heap)\<^sup>*\<^sup>* e u}" by blast
next
  fix t x
  assume t: "t \<in> {u. \<exists>e\<in>E. (dep heap)\<^sup>*\<^sup>* e u}" and l: "t < length heap"
    and k: "Kind (heap ! t) = TyKindArray" and x: "ElementType (heap ! t) = Some x"
  from l k x have d: "dep heap t x" by (simp add: dep_def)
  from t obtain e where e: "e \<in> E" "(dep heap)\<^sup>*\<^sup>* e t" by blast
  from e(2) d have "(dep heap)\<^sup>*\<^sup>* e x" by (rule rtranclp.rtrancl_into_rtrancl)
  with e(1) show "x \<in> {u. \<exists>e\<in>E. (dep heap)\<^sup>*\<^sup>* e u}" by blast
qed

text \<open>
  C10. When \<open>assignTypesToModules\<close> succeeds, every type in the final type list of a
  grouping is reachable, through object fields and array element types, from the request
  body or the response body of a handler of that grouping. So a named type that the
  configuration assigns to the grouping and that no such entry point reaches is not in the
  list.
\<close>

theorem only_reachable_types:
  assumes "topoContract topoSort" and "validOrder ord"
    and "assignTypesToModules topoSort ord fmtP fuel p = Some (None, p')"
    and "elementOnlyInArrays (store p')"
    and "map_of (modules p') mn = Some m"
    and "t \<in> set (Types m)"
  shows "\<exists>h\<in>set (HttpHandlers m). \<exists>e.
           (RequestBody h = Some e \<or> ResponseBody h = Some e) \<and> (dep (store p'))\<^sup>*\<^sup>* e t"
proof -
  let ?heap = "store p'"
  let ?E = "set (entryTypesOf (HttpHandlers m))"
  let ?R = "{u. \<exists>e\<in>?E. (dep ?heap)\<^sup>*\<^sup>* e u}"
  from assignTypesToModules_sorted [OF assms(1,2,3,5)] assms(6) obtain ts where
    ts: "\<forall>R. walkClosed ?heap R \<and> ?E \<subseteq> R \<longrightarrow> set ts \<subseteq> R"
    "Types m = filter (\<lambda>t. IsNamed (?heap ! t)) ts"
    unfolding sortedModule_def by auto
  have "walkClosed ?heap ?R" using assms(4) by (rule walkClosed_reachable)
  moreover have "?E \<subseteq> ?R" by blast
  ultimately have "set ts \<subseteq> ?R" using ts(1) by blast
  moreover from assms(6) have "t \<in> set ts" unfolding ts(2) by simp
  ultimately obtain e where e: "e \<in> ?E" "(dep ?heap)\<^sup>*\<^sup>* e t" by blast
  from entryTypesOf_member [OF e(1)] e(2) show ?thesis by blast
qed

theorem only_reachable_types_witness:
  "assignTypesToModules referenceSort writtenOrder printAddress 7 petParser = Some (None, petDone) \<and>
   map_of (TypeModuleMap (config petParser)) ''Orphan'' = Some ''pets'' \<and>
   map_of (namedTypes petParser) ''Orphan'' = Some 5 \<and>
   map_of (modules petDone) ''pets'' = Some petModuleDone \<and>
   Types petModuleDone = [1, 3, 0] \<and>
   map ResponseBody (HttpHandlers petModuleDone) = [Some 0] \<and>
   (dep (store petDone))\<^sup>*\<^sup>* 0 3"
proof -
  have m: "map_of (modules petDone) ''pets'' = Some petModuleDone"
    and w: "elementOnlyInArrays (store petDone)"
    and t: "3 \<in> set (Types petModuleDone)"
    by (simp_all add: petDone_def petModuleDone_def petHeap_def example_defs
        elementOnlyInArrays_def less_Suc_eq numeral_nat)
  from only_reachable_types [OF topoContract_referenceSort validOrder_writtenOrder
      petParser_run w m t]
  have "(dep (store petDone))\<^sup>*\<^sup>* 0 3"
    by (simp add: petModuleDone_def mkHandler_def)
  with petParser_run m show ?thesis
    by (simp add: petModuleDone_def petParser_def mkParser_def emptyConfig_def mkHandler_def)
qed




subsection \<open>Enough fuel\<close>

text \<open>The addresses of the store that are not in \<open>V\<close>: each nested call of a walk marks
  one of them, so a walk with more fuel than the store has cells returns.\<close>

definition pending :: "Ty list \<Rightarrow> ptr set \<Rightarrow> ptr set" where
  "pending heap V = {a. a < length heap \<and> a \<notin> V}"

lemma pending_finite: "finite (pending heap V)"
  by (simp add: pending_def)

lemma pending_mono: "V \<subseteq> V' \<Longrightarrow> card (pending heap V') \<le> card (pending heap V)"
  by (rule card_mono) (auto simp: pending_def)

lemma pending_insert:
  assumes "t < length heap" and "t \<notin> V"
  shows "card (pending heap (insert t V)) < card (pending heap V)"
proof (rule psubset_card_mono)
  show "finite (pending heap V)" by (rule pending_finite)
  from assms show "pending heap (insert t V) \<subset> pending heap V"
    by (auto simp: pending_def)
qed

lemma pending_all: "card (pending heap {}) = length heap"
  by (simp add: pending_def)

definition adderMono :: "adder \<Rightarrow> bool" where
  "adderMono self \<longleftrightarrow>
     (\<forall>ty st st'. self ty st = Some (Inr st') \<longrightarrow> dom (typeToID st) \<subseteq> dom (typeToID st'))"

definition adderTotal :: "Ty list \<Rightarrow> nat \<Rightarrow> adder \<Rightarrow> bool" where
  "adderTotal heap k self \<longleftrightarrow>
     (\<forall>ty st. card (pending heap (dom (typeToID st))) < k \<longrightarrow> self ty st \<noteq> None)"

lemma addElement_mono:
  assumes "adderMono self" and "addElement self x i st = Some (Inr st')"
  shows "dom (typeToID st) \<subseteq> dom (typeToID st')"
proof -
  from assms(2) obtain st1 where s1: "self (Some x) st = Some (Inr st1)"
    and e: "edgeFrom x i st1 = Inr st'"
    by (auto simp: addElement_def split: option.splits sum.splits)
  from assms(1) s1 have "dom (typeToID st) \<subseteq> dom (typeToID st1)"
    unfolding adderMono_def by blast
  with edgeFrom_typeToID [OF e] show ?thesis by simp
qed

lemma addField_mono:
  assumes "adderMono self" and "addField self heap i field st = Some (Inr st')"
  shows "dom (typeToID st) \<subseteq> dom (typeToID st')"
proof -
  from assms(2) obtain st1 where s1: "self (Type_field field) st = Some (Inr st1)"
    by (auto simp: addField_def split: option.splits sum.splits)
  from assms(1) s1 have r1: "dom (typeToID st) \<subseteq> dom (typeToID st1)"
    unfolding adderMono_def by blast
  show ?thesis
  proof (cases "Type_field field")
    case None
    with assms(2) s1 have "st' = st1" by (simp add: addField_def)
    with r1 show ?thesis by simp
  next
    case (Some ft)
    from assms(2) s1 Some obtain st2 where e: "edgeFrom ft i st1 = Inr st2"
      by (auto simp: addField_def split: sum.splits)
    from edgeFrom_typeToID [OF e] r1 have r2: "dom (typeToID st) \<subseteq> dom (typeToID st2)"
      by simp
    from assms(2) s1 Some e obtain fieldTy where d: "deref heap (Some ft) = Inr fieldTy"
      by (auto simp: addField_def split: sum.splits)
    show ?thesis
    proof (cases "ElementType fieldTy")
      case None
      with assms(2) s1 Some e d have "st' = st2" by (simp add: addField_def)
      with r2 show ?thesis by simp
    next
      case (Some elem)
      with assms(2) s1 \<open>Type_field field = Some ft\<close> e d
      have a: "addElement self elem i st2 = Some (Inr st')" by (simp add: addField_def)
      from addElement_mono [OF assms(1) a] r2 show ?thesis by simp
    qed
  qed
qed

lemma addFields_mono:
  assumes "adderMono self"
  shows "addFields self heap i fs st = Some (Inr st') \<Longrightarrow>
         dom (typeToID st) \<subseteq> dom (typeToID st')"
proof (induction fs arbitrary: st)
  case Nil
  then show ?case by simp
next
  case (Cons field rest)
  from Cons.prems obtain st1 where f: "addField self heap i field st = Some (Inr st1)"
    and r: "addFields self heap i rest st1 = Some (Inr st')"
    by (auto split: option.splits sum.splits)
  from addField_mono [OF assms f] Cons.IH [OF r] show ?case by simp
qed

lemma addTypeBody_mono:
  assumes "adderMono self"
  shows "adderMono (addTypeBody self heap)"
  unfolding adderMono_def
proof (intro allI impI)
  fix ty st st'
  assume run: "addTypeBody self heap ty st = Some (Inr st')"
  show "dom (typeToID st) \<subseteq> dom (typeToID st')"
  proof (cases ty)
    case None
    with run show ?thesis by (simp add: addTypeBody_def)
  next
    case (Some t)
    show ?thesis
    proof (cases "typeToID st t \<noteq> None")
      case True
      with run Some show ?thesis by (simp add: addTypeBody_def)
    next
      case False
      then have new: "typeToID st t = None" by simp
      let ?i = "nextID st"
      from run Some new obtain g where g: "AddNode ?i (graph st) = Inr g"
        by (auto simp: addTypeBody_def split: sum.splits)
      let ?st1 = "st\<lparr>graph := g, typeToID := (typeToID st)(t \<mapsto> ?i),
                    idToType := (idToType st)(?i \<mapsto> t), nextID := ?i + 1\<rparr>"
      have sub1: "dom (typeToID st) \<subseteq> dom (typeToID ?st1)" by auto
      from run Some new g obtain tv where d: "deref heap (Some t) = Inr tv"
        by (auto simp: addTypeBody_def Let_def split: sum.splits)
      show ?thesis
      proof (cases "Kind tv = TyKindObject")
        case True
        with run Some new g d
        have r: "addFields self heap ?i (Fields tv) ?st1 = Some (Inr st')"
          by (simp add: addTypeBody_def Let_def)
        from addFields_mono [OF assms r] sub1 show ?thesis by blast
      next
        case False
        note notObject = False
        show ?thesis
        proof (cases "Kind tv = TyKindArray")
          case True
          show ?thesis
          proof (cases "ElementType tv")
            case None
            with run Some new g d True
            have "st' = ?st1" by (simp add: addTypeBody_def Let_def)
            with sub1 show ?thesis by simp
          next
            case (Some elem)
            with run \<open>ty = Some t\<close> new g d True
            have r: "addElement self elem ?i ?st1 = Some (Inr st')"
              by (simp add: addTypeBody_def Let_def)
            from addElement_mono [OF assms r] sub1 show ?thesis by blast
          qed
        next
          case False
          with run Some new g d notObject
          have "st' = ?st1" by (simp add: addTypeBody_def Let_def)
          with sub1 show ?thesis by simp
        qed
      qed
    qed
  qed
qed

lemma addTypeToGraph_mono: "adderMono (addTypeToGraph heap n)"
proof (induction n)
  case 0
  show ?case by (simp add: adderMono_def)
next
  case (Suc n)
  then show ?case by (simp add: addTypeBody_mono)
qed

lemma addElement_total:
  assumes "adderTotal heap k self" and "card (pending heap (dom (typeToID st))) < k"
  shows "addElement self x i st \<noteq> None"
  using assms unfolding adderTotal_def addElement_def
  by (auto split: option.splits sum.splits)

lemma addField_total:
  assumes "adderMono self" and "adderTotal heap k self"
    and "card (pending heap (dom (typeToID st))) < k"
  shows "addField self heap i field st \<noteq> None"
proof -
  from assms(2,3) obtain r1 where s1: "self (Type_field field) st = Some r1"
    unfolding adderTotal_def by blast
  show ?thesis
  proof (cases r1)
    case (Inl e)
    with s1 show ?thesis by (simp add: addField_def)
  next
    case (Inr st1)
    with assms(1) s1 have "dom (typeToID st) \<subseteq> dom (typeToID st1)"
      unfolding adderMono_def by blast
    from pending_mono [OF this, of heap] assms(3)
    have c1: "card (pending heap (dom (typeToID st1))) < k" by simp
    show ?thesis
    proof (cases "Type_field field")
      case None
      with s1 Inr show ?thesis by (simp add: addField_def)
    next
      case (Some ft)
      show ?thesis
      proof (cases "edgeFrom ft i st1")
        case (Inl e)
        with s1 \<open>r1 = Inr st1\<close> Some show ?thesis by (simp add: addField_def)
      next
        case (Inr st2)
        from edgeFrom_typeToID [OF this] c1
        have c2: "card (pending heap (dom (typeToID st2))) < k" by simp
        show ?thesis
        proof (cases "deref heap (Some ft)")
          case (Inl e)
          with s1 \<open>r1 = Inr st1\<close> Some \<open>edgeFrom ft i st1 = Inr st2\<close> show ?thesis
            by (simp add: addField_def)
        next
          case (Inr fieldTy)
          show ?thesis
          proof (cases "ElementType fieldTy")
            case None
            with s1 \<open>r1 = Inr st1\<close> Some \<open>edgeFrom ft i st1 = Inr st2\<close> Inr show ?thesis
              by (simp add: addField_def)
          next
            case (Some elem)
            with s1 \<open>r1 = Inr st1\<close> \<open>Type_field field = Some ft\<close>
              \<open>edgeFrom ft i st1 = Inr st2\<close> Inr
            have "addField self heap i field st = addElement self elem i st2"
              by (simp add: addField_def)
            with addElement_total [OF assms(2) c2] show ?thesis by simp
          qed
        qed
      qed
    qed
  qed
qed

lemma addFields_total:
  assumes "adderMono self" and "adderTotal heap k self"
  shows "card (pending heap (dom (typeToID st))) < k \<Longrightarrow> addFields self heap i fs st \<noteq> None"
proof (induction fs arbitrary: st)
  case Nil
  show ?case by simp
next
  case (Cons field rest)
  from addField_total [OF assms Cons.prems] obtain r1 where
    f: "addField self heap i field st = Some r1" by blast
  show ?case
  proof (cases r1)
    case (Inl e)
    with f show ?thesis by simp
  next
    case (Inr st1)
    with addField_mono [OF assms(1)] f have "dom (typeToID st) \<subseteq> dom (typeToID st1)"
      by blast
    from pending_mono [OF this, of heap] Cons.prems
    have "card (pending heap (dom (typeToID st1))) < k" by simp
    from Cons.IH [OF this] f Inr show ?thesis by simp
  qed
qed

lemma addTypeBody_total:
  assumes "adderMono self" and "adderTotal heap k self"
  shows "adderTotal heap (Suc k) (addTypeBody self heap)"
  unfolding adderTotal_def
proof (intro allI impI)
  fix ty and st :: GraphState
  assume c: "card (pending heap (dom (typeToID st))) < Suc k"
  show "addTypeBody self heap ty st \<noteq> None"
  proof (cases ty)
    case None
    then show ?thesis by (simp add: addTypeBody_def)
  next
    case (Some t)
    show ?thesis
    proof (cases "typeToID st t \<noteq> None")
      case True
      with Some show ?thesis by (simp add: addTypeBody_def)
    next
      case False
      then have new: "typeToID st t = None" by simp
      let ?i = "nextID st"
      show ?thesis
      proof (cases "AddNode ?i (graph st)")
        case (Inl e)
        with Some new show ?thesis by (simp add: addTypeBody_def)
      next
        case (Inr g)
        let ?st1 = "st\<lparr>graph := g, typeToID := (typeToID st)(t \<mapsto> ?i),
                    idToType := (idToType st)(?i \<mapsto> t), nextID := ?i + 1\<rparr>"
        show ?thesis
        proof (cases "deref heap (Some t)")
          case (Inl e)
          with Some new \<open>AddNode ?i (graph st) = Inr g\<close> show ?thesis
            by (simp add: addTypeBody_def Let_def)
        next
          case (Inr tv)
          then have "t < length heap" by (auto simp: deref_def split: if_splits)
          moreover from new have "t \<notin> dom (typeToID st)" by auto
          ultimately have "card (pending heap (insert t (dom (typeToID st)))) <
              card (pending heap (dom (typeToID st)))" by (rule pending_insert)
          with c have c1: "card (pending heap (dom (typeToID ?st1))) < k" by simp
          from Some new \<open>AddNode ?i (graph st) = Inr g\<close> Inr
          have body: "addTypeBody self heap ty st =
              (if Kind tv = TyKindObject then addFields self heap ?i (Fields tv) ?st1
               else if Kind tv = TyKindArray then
                 (case ElementType tv of
                    None \<Rightarrow> Some (Inr ?st1)
                  | Some elem \<Rightarrow> addElement self elem ?i ?st1)
               else Some (Inr ?st1))"
            by (simp add: addTypeBody_def Let_def split: option.splits)
          from addFields_total [OF assms c1]
          have 1: "addFields self heap ?i (Fields tv) ?st1 \<noteq> None" .
          from addElement_total [OF assms(2) c1]
          have 2: "\<And>elem. addElement self elem ?i ?st1 \<noteq> None" .
          from 1 2 show ?thesis unfolding body by (simp split: option.splits)
        qed
      qed
    qed
  qed
qed

lemma addTypeToGraph_total: "adderTotal heap n (addTypeToGraph heap n)"
proof (induction n)
  case 0
  show ?case by (simp add: adderTotal_def)
next
  case (Suc n)
  with addTypeToGraph_mono [of heap n] show ?case by (simp add: addTypeBody_total)
qed

lemma addEntries_total:
  assumes "adderMono add" and "adderTotal heap k add"
  shows "card (pending heap (dom (typeToID st))) < k \<Longrightarrow> addEntries add entries st \<noteq> None"
proof (induction entries arbitrary: st)
  case Nil
  show ?case by simp
next
  case (Cons entry rest)
  from assms(2) Cons.prems obtain r1 where f: "add (Some entry) st = Some r1"
    unfolding adderTotal_def by blast
  show ?case
  proof (cases r1)
    case (Inl e)
    with f show ?thesis by simp
  next
    case (Inr st1)
    with assms(1) f have "dom (typeToID st) \<subseteq> dom (typeToID st1)"
      unfolding adderMono_def by blast
    from pending_mono [OF this, of heap] Cons.prems
    have "card (pending heap (dom (typeToID st1))) < k" by simp
    from Cons.IH [OF this] f Inr show ?thesis by simp
  qed
qed

lemma topologicalSortTypes_total:
  assumes "length heap < fuel"
  shows "topologicalSortTypes topoSort fuel heap entries \<noteq> None"
proof -
  have "card (pending heap (dom (typeToID initialGraphState))) < fuel"
    using assms by (simp add: initialGraphState_def pending_all)
  from addEntries_total [OF addTypeToGraph_mono addTypeToGraph_total this]
  have "addEntries (addTypeToGraph heap fuel) entries initialGraphState \<noteq> None" .
  then show ?thesis
    by (auto simp: topologicalSortTypes_def split: option.splits sum.splits)
qed


definition collectorMono :: "collector \<Rightarrow> bool" where
  "collectorMono self \<longleftrightarrow>
     (\<forall>t deps deps'. self t deps = Some (Inr deps') \<longrightarrow> set deps \<subseteq> set deps')"

definition collectorTotal :: "Ty list \<Rightarrow> nat \<Rightarrow> collector \<Rightarrow> bool" where
  "collectorTotal heap k self \<longleftrightarrow>
     (\<forall>t deps. card (pending heap (set deps)) < k \<longrightarrow> self t deps \<noteq> None)"

lemma collectAll_mono:
  assumes "collectorMono collect"
  shows "collectAll collect ts deps = Some (Inr deps') \<Longrightarrow> set deps \<subseteq> set deps'"
proof (induction ts arbitrary: deps)
  case Nil
  then show ?case by simp
next
  case (Cons t rest)
  from Cons.prems obtain deps1 where f: "collect t deps = Some (Inr deps1)"
    and r: "collectAll collect rest deps1 = Some (Inr deps')"
    by (auto split: option.splits sum.splits)
  from assms f have "set deps \<subseteq> set deps1" unfolding collectorMono_def by blast
  with Cons.IH [OF r] show ?case by simp
qed

lemma collectAll_total:
  assumes "collectorMono collect" and "collectorTotal heap k collect"
  shows "card (pending heap (set deps)) < k \<Longrightarrow> collectAll collect ts deps \<noteq> None"
proof (induction ts arbitrary: deps)
  case Nil
  show ?case by simp
next
  case (Cons t rest)
  from assms(2) Cons.prems obtain r1 where f: "collect t deps = Some r1"
    unfolding collectorTotal_def by blast
  show ?case
  proof (cases r1)
    case (Inl e)
    with f show ?thesis by simp
  next
    case (Inr deps1)
    with assms(1) f have "set deps \<subseteq> set deps1" unfolding collectorMono_def by blast
    from pending_mono [OF this, of heap] Cons.prems
    have "card (pending heap (set deps1)) < k" by simp
    from Cons.IH [OF this] f Inr show ?thesis by simp
  qed
qed

lemma collectBody_mono:
  assumes "collectorMono self"
  shows "collectorMono (collectBody self heap)"
  unfolding collectorMono_def
proof (intro allI impI)
  fix t deps deps'
  assume run: "collectBody self heap t deps = Some (Inr deps')"
  show "set deps \<subseteq> set deps'"
  proof (cases t)
    case None
    with run show ?thesis by (simp add: collectBody_def)
  next
    case (Some a)
    show ?thesis
    proof (cases "a \<in> set deps")
      case True
      with run Some show ?thesis by (simp add: collectBody_def)
    next
      case False
      with run Some obtain tv where d: "deref heap (Some a) = Inr tv"
        by (auto simp: collectBody_def split: sum.splits)
      show ?thesis
      proof (cases "Kind tv = TyKindObject")
        case True
        with run Some False d
        have "collectAll self (map Type_field (Fields tv)) (deps @ [a]) = Some (Inr deps')"
          by (simp add: collectBody_def)
        from collectAll_mono [OF assms this] show ?thesis by simp
      next
        case False
        note notObject = False
        show ?thesis
        proof (cases "Kind tv = TyKindArray")
          case True
          with run Some \<open>a \<notin> set deps\<close> d notObject
          have "self (ElementType tv) (deps @ [a]) = Some (Inr deps')"
            by (simp add: collectBody_def)
          with assms have "set (deps @ [a]) \<subseteq> set deps'" unfolding collectorMono_def by blast
          then show ?thesis by simp
        next
          case False
          with run Some \<open>a \<notin> set deps\<close> d notObject
          have "deps' = deps @ [a]" by (simp add: collectBody_def)
          then show ?thesis by auto
        qed
      qed
    qed
  qed
qed

lemma collectBody_total:
  assumes "collectorMono self" and "collectorTotal heap k self"
  shows "collectorTotal heap (Suc k) (collectBody self heap)"
  unfolding collectorTotal_def
proof (intro allI impI)
  fix t deps
  assume c: "card (pending heap (set deps)) < Suc k"
  show "collectBody self heap t deps \<noteq> None"
  proof (cases t)
    case None
    then show ?thesis by (simp add: collectBody_def)
  next
    case (Some a)
    show ?thesis
    proof (cases "a \<in> set deps")
      case True
      with Some show ?thesis by (simp add: collectBody_def)
    next
      case False
      show ?thesis
      proof (cases "deref heap (Some a)")
        case (Inl e)
        with Some False show ?thesis by (simp add: collectBody_def)
      next
        case (Inr tv)
        then have "a < length heap" by (auto simp: deref_def split: if_splits)
        from pending_insert [OF this False] c
        have c1: "card (pending heap (set (deps @ [a]))) < k" by simp
        from collectAll_total [OF assms c1]
        have 1: "collectAll self (map Type_field (Fields tv)) (deps @ [a]) \<noteq> None" .
        from assms(2) c1 have 2: "self (ElementType tv) (deps @ [a]) \<noteq> None"
          unfolding collectorTotal_def by blast
        from Some False Inr 1 2 show ?thesis by (simp add: collectBody_def)
      qed
    qed
  qed
qed

lemma collectFromType_mono: "collectorMono (collectFromType heap n)"
proof (induction n)
  case 0
  show ?case by (simp add: collectorMono_def)
next
  case (Suc n)
  then show ?case by (simp add: collectBody_mono)
qed

lemma collectFromType_total: "collectorTotal heap n (collectFromType heap n)"
proof (induction n)
  case 0
  show ?case by (simp add: collectorTotal_def)
next
  case (Suc n)
  with collectFromType_mono [of heap n] show ?case by (simp add: collectBody_total)
qed

lemma collectHandlerTypes_total:
  assumes "length heap < fuel"
  shows "collectHandlerTypes fuel heap handler \<noteq> None"
proof -
  have "card (pending heap (set [])) < fuel" using assms by (simp add: pending_all)
  then show ?thesis unfolding collectHandlerTypes_def
    by (rule collectAll_total [OF collectFromType_mono collectFromType_total])
qed

lemma depsOfHandlers_total:
  assumes "length heap < fuel"
  shows "depsOfHandlers fuel heap mn i hs acc \<noteq> None"
proof (induction hs arbitrary: i acc)
  case Nil
  show ?case by simp
next
  case (Cons h rest)
  from collectHandlerTypes_total [OF assms, of h] obtain r where
    "collectHandlerTypes fuel heap h = Some r" by blast
  with Cons.IH show ?case by (cases r) simp_all
qed

lemma depsOfModules_total:
  assumes "length heap < fuel"
  shows "depsOfModules fuel heap ms acc \<noteq> None"
proof (induction ms arbitrary: acc)
  case Nil
  show ?case by simp
next
  case (Cons entry rest)
  obtain mn m where entry: "entry = (mn, m)" by (cases entry)
  from depsOfHandlers_total [OF assms, of mn 0 "HttpHandlers m" acc] obtain r where
    "depsOfHandlers fuel heap mn 0 (HttpHandlers m) acc = Some r" by blast
  with Cons.IH entry show ?case by (cases r) simp_all
qed

lemma sortModuleTypes_total:
  assumes "length heap < fuel"
  shows "sortModuleTypes topoSort fmtP fuel heap m \<noteq> None"
  using topologicalSortTypes_total [OF assms, of topoSort
      "remdups_adj (sort_key fmtP (entryTypesOf (HttpHandlers m)))"]
  by (auto simp: sortModuleTypes_def split: option.splits sum.splits)

lemma sortModules_total:
  "length (store p) < fuel \<Longrightarrow> sortModules topoSort fmtP fuel p keys \<noteq> None"
proof (induction keys arbitrary: p)
  case Nil
  show ?case by simp
next
  case (Cons mn rest)
  show ?case
  proof (cases "map_of (modules p) mn")
    case None
    with Cons show ?thesis by simp
  next
    case (Some m)
    from sortModuleTypes_total [OF Cons.prems, of topoSort fmtP m] obtain r where
      r: "sortModuleTypes topoSort fmtP fuel (store p) m = Some r" by blast
    show ?thesis
    proof (cases r)
      case (Inl e)
      with Some r show ?thesis by simp
    next
      case (Inr m1)
      from Cons.prems
      have "length (store (p\<lparr>modules := AList.update mn m1 (modules p)\<rparr>)) < fuel" by simp
      from Cons.IH [OF this] Some r Inr show ?thesis by simp
    qed
  qed
qed

lemma updTy_length [simp]: "length (updTy heap a f) = length heap"
  by (simp add: updTy_def)

lemma assignConfigured_length: "length (store (assignConfigured p entries)) = length (store p)"
  by (induction p entries rule: assignConfigured.induct)
     (auto simp: Let_def split: option.splits)

lemma assignToFirstUser_length:
  "length (store (assignToFirstUser deps ty p keys)) = length (store p)"
  by (induction deps ty p keys rule: assignToFirstUser.induct) (auto split: option.splits)

lemma assignByUsage_length:
  "assignByUsage ord deps p entries = (r, p') \<Longrightarrow> length (store p') = length (store p)"
proof (induction entries arbitrary: p)
  case Nil
  then show ?case by simp
next
  case (Cons entry rest)
  obtain name ty where entry: "entry = (name, ty)" by (cases entry)
  show ?case
  proof (cases "deref (store p) (Some ty)")
    case (Inl e)
    with Cons.prems entry show ?thesis by simp
  next
    case (Inr tv)
    show ?thesis
    proof (cases "Module tv \<noteq> []")
      case True
      with Cons.prems entry Inr have "assignByUsage ord deps p rest = (r, p')" by simp
      from Cons.IH [OF this] show ?thesis .
    next
      case False
      let ?p1 = "assignToFirstUser deps ty (tick p)
                 (map fst (rangeMap ord (ranges p) (modules p)))"
      from Cons.prems entry Inr False have "assignByUsage ord deps ?p1 rest = (r, p')"
        by simp
      from Cons.IH [OF this] show ?thesis by (simp add: assignToFirstUser_length)
    qed
  qed
qed

lemma assignTypesToModules_total:
  assumes "length (store p) < fuel"
  shows "assignTypesToModules topoSort ord fmtP fuel p \<noteq> None"
proof -
  let ?p1 = "assignConfigured (tick p) (rangeMap ord (ranges p) (TypeModuleMap (config p)))"
  have l1: "length (store ?p1) < fuel" using assms by (simp add: assignConfigured_length)
  from depsOfModules_total [OF l1] obtain r where
    d: "depsOfModules fuel (store ?p1) (rangeMap ord (ranges ?p1) (modules ?p1)) [] = Some r"
    by blast
  show ?thesis
  proof (cases r)
    case (Inl e)
    with d show ?thesis by (simp add: assignTypesToModules_def Let_def)
  next
    case (Inr deps)
    let ?p2 = "tick ?p1"
    obtain r3 p3 where
      u: "assignByUsage ord deps (tick ?p2) (rangeMap ord (ranges ?p2) (namedTypes ?p2)) = (r3, p3)"
      by (cases "assignByUsage ord deps (tick ?p2) (rangeMap ord (ranges ?p2) (namedTypes ?p2))")
    from assignByUsage_length [OF u] l1 have l3: "length (store (tick p3)) < fuel" by simp
    show ?thesis
    proof (cases r3)
      case (Some e)
      with d Inr u show ?thesis by (simp add: assignTypesToModules_def Let_def)
    next
      case None
      with d Inr u sortModules_total [OF l3] show ?thesis
        by (simp add: assignTypesToModules_def Let_def)
    qed
  qed
qed


section \<open>Runs that differ only in the order of map iteration\<close>

text \<open>An object schema with the properties \<open>a\<close> and \<open>b\<close> and no \<open>x-coze-order\<close>.\<close>

definition pairSchema :: SchemaRef where
  "pairSchema = mkSchema [''object''] [(''a'', mkSchema [''string''] []), (''b'', mkSchema [''integer''] [])]"

text \<open>The field names of the type that a conversion returns.\<close>

definition fieldNamesOf :: "ptr result \<Rightarrow> string list option" where
  "fieldNamesOf r =
     (case r of
        Some (Inr ty, p') \<Rightarrow> Some (map Name_field (Fields (store p' ! ty)))
      | _ \<Rightarrow> None)"

text \<open>The groupings \<open>alpha\<close> and \<open>beta\<close>, each with a handler that returns the named type
  \<open>Shared\<close>; no configuration.\<close>

definition sharedParser :: Parser where
  "sharedParser =
     mkParser [(''Shared'', 0)]
       [(''alpha'', \<lparr>Name_module = ''alpha'',
                     HttpHandlers = [mkHandler ''GetAlpha'' ''GET'' [] None (Some 0)],
                     Types = []\<rparr>),
        (''beta'', \<lparr>Name_module = ''beta'',
                    HttpHandlers = [mkHandler ''GetBeta'' ''GET'' [] None (Some 0)],
                    Types = []\<rparr>)]
       emptyConfig
       [objectTy ''Shared'' True []]"

text \<open>The type list of every grouping after a successful run.\<close>

definition typeListsOf :: "(err option \<times> Parser) option \<Rightarrow> (string \<times> ptr list) list option" where
  "typeListsOf r =
     (case r of
        Some (None, p') \<Rightarrow> Some (map (\<lambda>entry. (fst entry, Types (snd entry))) (modules p'))
      | _ \<Rightarrow> None)"

text \<open>
  C1 (the code fails here). Two runs on the same input, one visiting every map in the
  written order and one backwards, both orders that the runtime can choose: the fields of
  the converted object type come out in different orders, and the named type \<open>Shared\<close>,
  assigned by usage, ends up in the type list of \<open>alpha\<close> in one run and of \<open>beta\<close> in the
  other.
\<close>

theorem map_order_changes_output:
  "validOrder writtenOrder \<and> validOrder reverseOrder \<and>
   fieldNamesOf (convertSchema writtenOrder 2 emptyParser (Some pairSchema) ''Pair'' True) =
     Some [''a'', ''b''] \<and>
   fieldNamesOf (convertSchema reverseOrder 2 emptyParser (Some pairSchema) ''Pair'' True) =
     Some [''b'', ''a''] \<and>
   typeListsOf (assignTypesToModules referenceSort writtenOrder printAddress 2 sharedParser) =
     Some [(''alpha'', [0]), (''beta'', [])] \<and>
   typeListsOf (assignTypesToModules referenceSort reverseOrder printAddress 2 sharedParser) =
     Some [(''alpha'', []), (''beta'', [0])]"
proof -
  have "fieldNamesOf (convertSchema writtenOrder 2 emptyParser (Some pairSchema) ''Pair'' True) =
     Some [''a'', ''b'']"
    by code_simp
  moreover
  have "fieldNamesOf (convertSchema reverseOrder 2 emptyParser (Some pairSchema) ''Pair'' True) =
     Some [''b'', ''a'']"
    by code_simp
  moreover
  have "typeListsOf (assignTypesToModules referenceSort writtenOrder printAddress 2 sharedParser) =
     Some [(''alpha'', [0]), (''beta'', [])]"
    by code_simp
  moreover
  have "typeListsOf (assignTypesToModules referenceSort reverseOrder printAddress 2 sharedParser) =
     Some [(''alpha'', []), (''beta'', [0])]"
    by code_simp
  ultimately show ?thesis
    using validOrder_writtenOrder validOrder_reverseOrder by simp
qed


end
